theory Spec2Isabelle
  imports Main "HOL-Library.Multiset"
begin

section \<open>The environment of the tagging script\<close>

text \<open>
  The script \<^verbatim>\<open>s3-permanent-deletes/main.py\<close> talks to three things outside itself: the
  CSV reader, the S3 client and the logger. Each is modelled as a part of one explicit
  state, the \<open>world\<close>, which every function of the script takes and returns.

  Exceptions are values. \<open>ClientError code message\<close> is botocore's \<^verbatim>\<open>ClientError\<close> with
  \<^verbatim>\<open>e.response['Error']['Code']\<close> and \<^verbatim>\<open>['Message']\<close>; \<open>OtherException s\<close> is any other
  \<^verbatim>\<open>Exception\<close>, carrying \<^verbatim>\<open>str(e)\<close>. A remote call returns \<open>Inl e\<close> when it raises.
\<close>

datatype exn = ClientError string string | OtherException string

record tag =
  Key :: string
  Value :: string

text \<open>One page of a \<^verbatim>\<open>list_objects_v2\<close> listing: the keys of its \<^verbatim>\<open>Contents\<close>, when present.\<close>

type_synonym page = "string list option"

text \<open>
  A data frame: the column names and the rows. A cell is \<open>None\<close> when pandas holds a
  missing value (NaN) there; otherwise it holds the text that \<^verbatim>\<open>str\<close> gives for the value.
\<close>

record dataframe =
  columns :: "string list"
  rows :: "(string \<Rightarrow> string option) list"

datatype call =
    ListObjectsV2 string string
  | GetObjectTagging string string
  | PutObjectTagging string string "tag list"

datatype level = INFO | WARNING | ERROR

text \<open>One constructor for each logger call of the script, with the values it interpolates.\<close>

datatype msg =
    ReadingCsv string
  | ErrorReadingCsv exn
  | ColumnsNotFound string string
  | AvailableColumns "string list"
  | ProcessingRows nat
  | FoundUniqueLocations nat
  | Phase1Start
  | ErrorListing string exn
  | LocationFound string nat string
  | ErrorProcessingLocation string exn
  | Phase1Complete nat
  | NoMatchingObjects
  | Phase2Start
  | FailedToTag string string
  | TaggingProgress nat nat
  | SummaryRule
  | SummaryTitle
  | SummaryRows nat
  | SummaryLocations nat
  | SummaryMatching nat
  | SummarySuccessful nat
  | SummaryAlreadyTagged nat
  | SummaryFailed nat
  | SummaryTime
  | SummaryRate
  | SampleHeader
  | SampleObject string
  | SampleMore nat

text \<open>
  The world. \<open>files\<close> is what \<^verbatim>\<open>pd.read_csv\<close> gives for a path. \<open>objects\<close> is the
  tag set stored for each (bucket, key), \<open>None\<close> when there is no such object.
  \<open>listing\<close> is what paginating a (bucket, prefix) yields: the pages received, then the
  exception raised while fetching the next one, if any. \<open>get_outcome\<close> and \<open>put_fault\<close>
  script the failures of the tagging calls: where they are \<open>None\<close> the call is served
  from \<open>objects\<close>. \<open>calls\<close> records every remote call in order, \<open>logged\<close> every log record.
\<close>

record world =
  files :: "string \<Rightarrow> exn + dataframe"
  objects :: "string \<times> string \<Rightarrow> tag list option"
  listing :: "string \<times> string \<Rightarrow> page list \<times> exn option"
  get_outcome :: "string \<times> string \<Rightarrow> (exn + tag list option) option"
  put_fault :: "string \<times> string \<Rightarrow> exn option"
  calls :: "call list"
  logged :: "(level \<times> msg) list"

definition emit :: "level \<Rightarrow> msg \<Rightarrow> world \<Rightarrow> world" where
  "emit l m w = w\<lparr>logged := logged w @ [(l, m)]\<rparr>"

definition no_such_key :: exn where
  "no_such_key = ClientError ''NoSuchKey'' ''The specified key does not exist.''"

text \<open>
  \<^verbatim>\<open>s3_client.get_object_tagging(Bucket, Key)\<close>: the response's \<^verbatim>\<open>TagSet\<close> entry, when
  the response has one.
\<close>

definition get_object_tagging ::
  "world \<Rightarrow> string \<Rightarrow> string \<Rightarrow> (exn + tag list option) \<times> world" where
  "get_object_tagging w bucket key =
    (let w' = w\<lparr>calls := calls w @ [GetObjectTagging bucket key]\<rparr> in
     case get_outcome w (bucket, key) of
       Some r \<Rightarrow> (r, w')
     | None \<Rightarrow>
        (case objects w (bucket, key) of
           None \<Rightarrow> (Inl no_such_key, w')
         | Some ts \<Rightarrow> (Inr (Some ts), w')))"

text \<open>
  \<^verbatim>\<open>s3_client.put_object_tagging(Bucket, Key, Tagging={'TagSet': ts})\<close>: replaces the
  whole tag set of the object.
\<close>

definition put_object_tagging ::
  "world \<Rightarrow> string \<Rightarrow> string \<Rightarrow> tag list \<Rightarrow> (exn + unit) \<times> world" where
  "put_object_tagging w bucket key ts =
    (let w' = w\<lparr>calls := calls w @ [PutObjectTagging bucket key ts]\<rparr> in
     case put_fault w (bucket, key) of
       Some e \<Rightarrow> (Inl e, w')
     | None \<Rightarrow>
        (case objects w (bucket, key) of
           None \<Rightarrow> (Inl no_such_key, w')
         | Some _ \<Rightarrow> (Inr (), w'\<lparr>objects := (objects w)((bucket, key) \<mapsto> ts)\<rparr>)))"

text \<open>
  \<^verbatim>\<open>paginator.paginate(Bucket, Prefix)\<close>, iterated to its end or to the exception.
\<close>

definition paginate :: "world \<Rightarrow> string \<Rightarrow> string \<Rightarrow> (page list \<times> exn option) \<times> world" where
  "paginate w bucket prefix =
    (listing w (bucket, prefix), w\<lparr>calls := calls w @ [ListObjectsV2 bucket prefix]\<rparr>)"

section \<open>Tagging one object\<close>

text \<open>
  \<^verbatim>\<open>tag_single_object\<close>, lines 100 to 135. \<open>tag_with_existing\<close> is the part of the
  \<^verbatim>\<open>try\<close> block that follows the binding of \<^verbatim>\<open>existing_tags\<close> (lines 111 to 129) under the
  two outer handlers (lines 131 to 135).
\<close>

definition tag_with_existing ::
  "world \<Rightarrow> string \<Rightarrow> string \<Rightarrow> string \<Rightarrow> string \<Rightarrow> tag list \<Rightarrow> (string \<times> bool \<times> string) \<times> world" where
  "tag_with_existing w bucket_name object_key tag_key tag_value existing_tags =
    (if list_ex (\<lambda>t. Key t = tag_key) existing_tags
     then ((object_key, True, ''Tag already exists''), w)
     else
       (case put_object_tagging w bucket_name object_key
               (existing_tags @ [\<lparr>Key = tag_key, Value = tag_value\<rparr>]) of
          (Inl (ClientError code message), w') \<Rightarrow>
            ((object_key, False, ''AWS Error: '' @ code @ '' - '' @ message), w')
        | (Inl (OtherException s), w') \<Rightarrow>
            ((object_key, False, ''Unexpected error: '' @ s), w')
        | (Inr _, w') \<Rightarrow> ((object_key, True, ''Successfully tagged''), w')))"

definition tag_single_object ::
  "world \<Rightarrow> string \<Rightarrow> string \<Rightarrow> string \<Rightarrow> string \<Rightarrow> (string \<times> bool \<times> string) \<times> world" where
  "tag_single_object w bucket_name object_key tag_key tag_value =
    (case get_object_tagging w bucket_name object_key of
       (Inl (ClientError code message), w') \<Rightarrow>
         if code = ''NoSuchKey''
         then ((object_key, False, ''Object not found''), w')
         else tag_with_existing w' bucket_name object_key tag_key tag_value []
     | (Inl (OtherException s), w') \<Rightarrow>
         ((object_key, False, ''Unexpected error: '' @ s), w')
     | (Inr response, w') \<Rightarrow>
         tag_with_existing w' bucket_name object_key tag_key tag_value
           (case response of None \<Rightarrow> [] | Some ts \<Rightarrow> ts))"

section \<open>Regular expressions\<close>

text \<open>
  The script builds its pattern as a string, escapes the user's text with \<^verbatim>\<open>re.escape\<close>,
  compiles it with \<^verbatim>\<open>re.compile\<close> and tests keys with \<^verbatim>\<open>match\<close>. The model keeps those
  three steps apart, so that the escaping is checked against the parser and not assumed.
  Strings are lists of \<open>char\<close>; a character outside ASCII is several of them, none of
  which is special to either function.
\<close>

definition backslash :: char where "backslash = CHR 0x5C"
definition newline :: char where "newline = CHR 0x0A"

text \<open>
  \<^verbatim>\<open>re.escape\<close> (Python 3.7 and later): a backslash before each of the characters
  \<^verbatim>\<open>()[]{}?*+-|^$\.&~#\<close>, space, tab, newline, carriage return, vertical tab and form
  feed; every other character is left as it is.
\<close>

definition special_chars :: string where
  "special_chars = ''()[]{}?*+-|^$'' @ [backslash] @ ''.&~# '' @ [CHR 0x09, CHR 0x0A, CHR 0x0D, CHR 0x0B, CHR 0x0C]"

definition re_escape :: "string \<Rightarrow> string" where
  "re_escape s = concat (map (\<lambda>c. if c \<in> set special_chars then [backslash, c] else [c]) s)"

text \<open>\<^verbatim>\<open>sep.join(xs)\<close>.\<close>

fun join :: "'a list \<Rightarrow> 'a list list \<Rightarrow> 'a list" where
  "join sep [] = []"
| "join sep [x] = x"
| "join sep (x # y # ys) = x @ sep @ join sep (y # ys)"

text \<open>
  \<^verbatim>\<open>re.compile\<close>, for the part of the pattern language that the script's patterns use:
  literals, escaped literals, \<^verbatim>\<open>.\<close>, \<^verbatim>\<open>*\<close>, \<^verbatim>\<open>|\<close>, groups, \<^verbatim>\<open>^\<close> and \<^verbatim>\<open>$\<close>. The result is
  \<open>None\<close> where Python raises \<^verbatim>\<open>re.error\<close> (a trailing backslash, an unbalanced
  parenthesis, nothing to repeat, a repeated repeat) and also for the constructs left
  out of the model (character classes, counted and optional repeats, and an escaped
  letter or digit, which Python reads as a class, a back-reference or an error).
\<close>

datatype token = TLit char | TDot | TStar | TBar | TLParen | TRParen | TCaret | TDollar

definition is_ascii_alnum :: "char \<Rightarrow> bool" where
  "is_ascii_alnum c = (let n = (of_char c :: nat) in
     (48 \<le> n \<and> n \<le> 57) \<or> (65 \<le> n \<and> n \<le> 90) \<or> (97 \<le> n \<and> n \<le> 122))"

definition token_of :: "char \<Rightarrow> token" where
  "token_of c =
    (if c = CHR ''.'' then TDot
     else if c = CHR ''*'' then TStar
     else if c = CHR ''|'' then TBar
     else if c = CHR ''('' then TLParen
     else if c = CHR '')'' then TRParen
     else if c = CHR ''^'' then TCaret
     else if c = CHR ''$'' then TDollar
     else TLit c)"

fun tokenize :: "string \<Rightarrow> token list option" where
  "tokenize [] = Some []"
| "tokenize (c # cs) =
    (if c = backslash then
       (case cs of
          [] \<Rightarrow> None
        | d # ds \<Rightarrow> if is_ascii_alnum d then None else map_option ((#) (TLit d)) (tokenize ds))
     else if c \<in> set ''[]{}?+'' then None
     else map_option ((#) (token_of c)) (tokenize cs))"

datatype regex = Epsilon | Lit char | Dot | Bol | Eol | Cat regex regex | Or regex regex
  | Star regex | Group regex

fun seq_of :: "regex list \<Rightarrow> regex" where
  "seq_of [] = Epsilon"
| "seq_of (r # rs) = Cat r (seq_of rs)"

fun alt_of :: "regex list \<Rightarrow> regex" where
  "alt_of [] = Epsilon"
| "alt_of [r] = r"
| "alt_of (r # rs) = Or r (alt_of rs)"

type_synonym frame = "regex list \<times> regex list"

definition close_frame :: "frame \<Rightarrow> regex" where
  "close_frame f = alt_of (rev (seq_of (rev (snd f)) # fst f))"

fun repeatable :: "regex \<Rightarrow> bool" where
  "repeatable (Star r) = False"
| "repeatable Bol = False"
| "repeatable Eol = False"
| "repeatable r = True"

fun parse_step :: "token \<Rightarrow> frame list \<Rightarrow> frame list option" where
  "parse_step tok [] = None"
| "parse_step (TLit c) ((al, cur) # st) = Some ((al, Lit c # cur) # st)"
| "parse_step TDot ((al, cur) # st) = Some ((al, Dot # cur) # st)"
| "parse_step TCaret ((al, cur) # st) = Some ((al, Bol # cur) # st)"
| "parse_step TDollar ((al, cur) # st) = Some ((al, Eol # cur) # st)"
| "parse_step TStar ((al, []) # st) = None"
| "parse_step TStar ((al, r # cur) # st) =
     (if repeatable r then Some ((al, Star r # cur) # st) else None)"
| "parse_step TBar ((al, cur) # st) = Some ((seq_of (rev cur) # al, []) # st)"
| "parse_step TLParen (f # st) = Some (([], []) # f # st)"
| "parse_step TRParen [f] = None"
| "parse_step TRParen (f # (al, cur) # st) = Some ((al, Group (close_frame f) # cur) # st)"

fun parse_tokens :: "token list \<Rightarrow> frame list \<Rightarrow> frame list option" where
  "parse_tokens [] st = Some st"
| "parse_tokens (t # ts) st =
     (case parse_step t st of None \<Rightarrow> None | Some st' \<Rightarrow> parse_tokens ts st')"

definition re_compile :: "string \<Rightarrow> regex option" where
  "re_compile p =
    (case tokenize p of
       None \<Rightarrow> None
     | Some ts \<Rightarrow>
        (case parse_tokens ts [([], [])] of
           Some [f] \<Rightarrow> Some (close_frame f)
         | _ \<Rightarrow> None))"

text \<open>
  Matching. A position is the number of characters consumed and the rest of the key.
  \<open>rmatch r p\<close> lists the positions that \<open>r\<close> can reach from \<open>p\<close>. Without flags,
  \<^verbatim>\<open>.\<close> matches any character but a newline, \<^verbatim>\<open>^\<close> matches at the start of the key, and
  \<^verbatim>\<open>$\<close> matches at the end of the key and just before a newline that ends the key.
  A star reaches every position that some number of rounds of its body reaches; one
  round more than the characters left covers them all. \<^verbatim>\<open>pattern.match(key)\<close> succeeds
  when the pattern reaches any position from the start of the key.
\<close>

type_synonym pos = "nat \<times> string"

primrec star_iter :: "(pos \<Rightarrow> pos list) \<Rightarrow> nat \<Rightarrow> pos list \<Rightarrow> pos list" where
  "star_iter f 0 ps = ps"
| "star_iter f (Suc k) ps = ps @ star_iter f k (concat (map f ps))"

primrec rmatch :: "regex \<Rightarrow> pos \<Rightarrow> pos list" where
  "rmatch Epsilon = (\<lambda>p. [p])"
| "rmatch (Lit c) = (\<lambda>(n, s). case s of [] \<Rightarrow> [] | x # xs \<Rightarrow> if x = c then [(Suc n, xs)] else [])"
| "rmatch Dot = (\<lambda>(n, s). case s of [] \<Rightarrow> [] | x # xs \<Rightarrow> if x = newline then [] else [(Suc n, xs)])"
| "rmatch Bol = (\<lambda>(n, s). if n = 0 then [(n, s)] else [])"
| "rmatch Eol = (\<lambda>(n, s). if s = [] \<or> s = [newline] then [(n, s)] else [])"
| "rmatch (Cat a b) = (\<lambda>p. concat (map (rmatch b) (rmatch a p)))"
| "rmatch (Or a b) = (\<lambda>p. rmatch a p @ rmatch b p)"
| "rmatch (Star a) = (\<lambda>p. star_iter (rmatch a) (Suc (length (snd p))) [p])"
| "rmatch (Group a) = rmatch a"

definition re_match :: "regex \<Rightarrow> string \<Rightarrow> bool" where
  "re_match r key = (rmatch r (0, key) \<noteq> [])"

section \<open>Discovery\<close>

text \<open>
  \<^verbatim>\<open>list_matching_objects\<close>, lines 68 to 85. The pattern is compiled outside the
  \<^verbatim>\<open>try\<close> block, so its failure leaves the function as an exception. A \<^verbatim>\<open>ClientError\<close>
  raised while paginating is logged and the keys matched so far are returned; any
  other exception leaves the function.
\<close>

definition page_matches :: "regex \<Rightarrow> page \<Rightarrow> string list" where
  "page_matches compiled_pattern pg =
    (case pg of None \<Rightarrow> [] | Some keys \<Rightarrow> filter (re_match compiled_pattern) keys)"

definition list_matching_objects ::
  "world \<Rightarrow> string \<Rightarrow> string \<Rightarrow> string \<Rightarrow> (exn + string list) \<times> world" where
  "list_matching_objects w bucket_name prefix pattern =
    (case re_compile pattern of
       None \<Rightarrow> (Inl (OtherException ''re.error''), w)
     | Some compiled_pattern \<Rightarrow>
        (case paginate w bucket_name prefix of
           ((pages, failure), w') \<Rightarrow>
             (let matching_objects = concat (map (page_matches compiled_pattern) pages) in
              case failure of
                None \<Rightarrow> (Inr matching_objects, w')
              | Some (ClientError code message) \<Rightarrow>
                  (Inr matching_objects,
                   emit ERROR (ErrorListing prefix (ClientError code message)) w')
              | Some (OtherException s) \<Rightarrow> (Inl (OtherException s), w'))))"

text \<open>
  \<^verbatim>\<open>find_objects_for_location\<close>, lines 192 to 215; \<open>full_pattern\<close> is its local variable
  of that name (lines 202 to 205). What it prints to standard output is not modelled.
\<close>

definition full_pattern :: "string \<Rightarrow> string list \<Rightarrow> string" where
  "full_pattern location filenames =
    ''^'' @ re_escape location @ ''('' @
    join ''|'' (map (\<lambda>fn. fn @ ''.*'' @ [backslash] @ ''.mp4'') (map re_escape filenames)) @ '')$''"

definition find_objects_for_location ::
  "world \<Rightarrow> string \<Rightarrow> string \<times> string list \<Rightarrow> string list \<times> world" where
  "find_objects_for_location w bucket_name location_data =
    (case location_data of
       (location, filenames) \<Rightarrow>
         (let location' = ''TvShows/'' @ location @ ''/'';
              pattern = full_pattern location' filenames
          in case list_matching_objects w bucket_name location' pattern of
               (Inr matches, w') \<Rightarrow>
                 (matches, emit INFO (LocationFound location' (length matches) pattern) w')
             | (Inl err, w') \<Rightarrow>
                 ([], emit ERROR (ErrorProcessingLocation location' err) w')))"

text \<open>
  The set \<^verbatim>\<open>all_matching_objects\<close> is a list without duplicates; \<open>set_update\<close> is
  \<^verbatim>\<open>set.update\<close>. The listing tasks run on a thread pool and are collected as they
  complete; the model runs them one after the other in the order of the groups.
\<close>

definition set_update :: "string list \<Rightarrow> string list \<Rightarrow> string list" where
  "set_update acc ms = acc @ filter (\<lambda>k. k \<notin> set acc) (remdups ms)"

fun find_all ::
  "world \<Rightarrow> string \<Rightarrow> (string \<times> string list) list \<Rightarrow> string list \<Rightarrow> string list \<times> world" where
  "find_all w bucket_name [] all_matching_objects = (all_matching_objects, w)"
| "find_all w bucket_name (item # items) all_matching_objects =
    (case find_objects_for_location w bucket_name item of
       (matches, w') \<Rightarrow>
         find_all w' bucket_name items (set_update all_matching_objects matches))"

section \<open>Reading and grouping the rows\<close>

text \<open>
  Lines 173 to 184. \<open>dropna\<close> keeps the rows that have a value in both columns.
  \<open>str_cell\<close> is \<^verbatim>\<open>str\<close> on a cell; \<open>strip_slashes\<close> is \<^verbatim>\<open>.strip('/')\<close>. The
  \<^verbatim>\<open>defaultdict(list)\<close> is an association list in insertion order, as Python's
  dictionaries are.
\<close>

definition dropna ::
  "string \<Rightarrow> string \<Rightarrow> (string \<Rightarrow> string option) list \<Rightarrow> (string \<Rightarrow> string option) list" where
  "dropna object_prefix object_filename rs =
     filter (\<lambda>row. row object_prefix \<noteq> None \<and> row object_filename \<noteq> None) rs"

definition str_cell :: "string option \<Rightarrow> string" where
  "str_cell c = (case c of None \<Rightarrow> ''nan'' | Some s \<Rightarrow> s)"

definition strip_slashes :: "string \<Rightarrow> string" where
  "strip_slashes s =
     rev (dropWhile (\<lambda>c. c = CHR ''/'') (rev (dropWhile (\<lambda>c. c = CHR ''/'') s)))"

fun append_to_group ::
  "string \<Rightarrow> string \<Rightarrow> (string \<times> string list) list \<Rightarrow> (string \<times> string list) list" where
  "append_to_group location filename [] = [(location, [filename])]"
| "append_to_group location filename ((l, fs) # groups) =
    (if l = location then (l, fs @ [filename]) # groups
     else (l, fs) # append_to_group location filename groups)"

definition row_location :: "string \<Rightarrow> (string \<Rightarrow> string option) \<Rightarrow> string" where
  "row_location object_prefix row = strip_slashes (str_cell (row object_prefix))"

definition row_filename :: "string \<Rightarrow> (string \<Rightarrow> string option) \<Rightarrow> string" where
  "row_filename object_filename row = str_cell (row object_filename)"

definition location_groups ::
  "string \<Rightarrow> string \<Rightarrow> (string \<Rightarrow> string option) list \<Rightarrow> (string \<times> string list) list" where
  "location_groups object_prefix object_filename df_clean =
     foldl (\<lambda>groups row.
        append_to_group (row_location object_prefix row) (row_filename object_filename row) groups)
       [] df_clean"

section \<open>The tagging phase\<close>

text \<open>
  Lines 243 to 267. Every tagging task is submitted before the first result is read,
  and leaving the \<^verbatim>\<open>with\<close> block waits for all of them, so all tasks run whatever the
  loop over the results does: \<open>tag_all\<close> runs the tasks, \<open>process_results\<close> is the loop
  over the completed futures. The tasks run one after the other in the order of the
  keys. The progress test divides by \<^verbatim>\<open>batch_size\<close>: zero raises \<^verbatim>\<open>ZeroDivisionError\<close>
  in the loop, outside every handler.
\<close>

record counters =
  successful :: nat
  failed :: nat
  already_tagged :: nat

fun tag_all ::
  "world \<Rightarrow> string \<Rightarrow> string list \<Rightarrow> string \<Rightarrow> string \<Rightarrow> (string \<times> bool \<times> string) list \<times> world" where
  "tag_all w bucket_name [] tag_key tag_value = ([], w)"
| "tag_all w bucket_name (key # keys) tag_key tag_value =
    (case tag_single_object w bucket_name key tag_key tag_value of
       (r, w') \<Rightarrow>
         (case tag_all w' bucket_name keys tag_key tag_value of
            (rs, w'') \<Rightarrow> (r # rs, w'')))"

definition is_prefix :: "string \<Rightarrow> string \<Rightarrow> bool" where
  "is_prefix p s = (take (length p) s = p)"

text \<open>\<^verbatim>\<open>p in s\<close> on strings.\<close>

fun contains :: "string \<Rightarrow> string \<Rightarrow> bool" where
  "contains p [] = (p = [])"
| "contains p (c # cs) = (is_prefix p (c # cs) \<or> contains p cs)"

definition count_result :: "bool \<Rightarrow> string \<Rightarrow> counters \<Rightarrow> counters" where
  "count_result success message c =
    (if success then
       if contains ''already exists'' message
       then c\<lparr>already_tagged := already_tagged c + 1\<rparr>
       else c\<lparr>successful := successful c + 1\<rparr>
     else c\<lparr>failed := failed c + 1\<rparr>)"

fun process_results ::
  "int \<Rightarrow> nat \<Rightarrow> nat \<Rightarrow> (string \<times> bool \<times> string) list \<Rightarrow> counters \<Rightarrow> world \<Rightarrow> (exn + counters) \<times> world" where
  "process_results batch_size n i [] c w = (Inr c, w)"
| "process_results batch_size n i ((object_key, success, message) # rs) c w =
    (let c' = count_result success message c;
         w' = (if success then w else emit WARNING (FailedToTag object_key message) w)
     in if batch_size = 0
        then (Inl (OtherException ''integer modulo by zero''), w')
        else process_results batch_size n (Suc i) rs c'
               (if int i mod batch_size = 0 \<or> i = n
                then emit INFO (TaggingProgress i n) w' else w'))"

definition tagging_phase ::
  "world \<Rightarrow> string \<Rightarrow> string list \<Rightarrow> string \<Rightarrow> string \<Rightarrow> int \<Rightarrow> (exn + counters) \<times> world" where
  "tagging_phase w bucket_name matching_objects_list tag_key tag_value batch_size =
    (case tag_all w bucket_name matching_objects_list tag_key tag_value of
       (results, w') \<Rightarrow>
         process_results batch_size (length matching_objects_list) 1 results
           \<lparr>successful = 0, failed = 0, already_tagged = 0\<rparr> w')"

section \<open>The run\<close>

text \<open>
  \<^verbatim>\<open>tag_objects_by_pattern\<close>, lines 156 to 290. \<open>read_groups\<close> is its first part, up to
  the start of phase 1 (lines 158 to 189): reading the table, the check of the columns
  and the grouping. The function returns nothing; the model returns which of its exits
  was taken. \<open>Crashed\<close> is an exception that leaves the
  function: \<^verbatim>\<open>ThreadPoolExecutor\<close> raises \<^verbatim>\<open>ValueError\<close> for a worker count that is not
  positive, and the progress test raises for a batch size of zero. Elapsed time and the
  rate are floating-point readings of the clock and are not modelled; their two log
  records carry no value.
\<close>

datatype run_result = CsvUnreadable | ColumnsMissing | NoMatches | Crashed exn | Completed counters

definition emit_all :: "level \<Rightarrow> msg list \<Rightarrow> world \<Rightarrow> world" where
  "emit_all l ms w = w\<lparr>logged := logged w @ map (Pair l) ms\<rparr>"

definition summary :: "nat \<Rightarrow> nat \<Rightarrow> string list \<Rightarrow> counters \<Rightarrow> msg list" where
  "summary n_rows n_locations matching_objects_list c =
    [SummaryRule, SummaryTitle, SummaryRule, SummaryRows n_rows, SummaryLocations n_locations,
     SummaryMatching (length matching_objects_list), SummarySuccessful (successful c),
     SummaryAlreadyTagged (already_tagged c), SummaryFailed (failed c), SummaryTime, SummaryRate]
    @ (if matching_objects_list \<noteq> []
       then SampleHeader # map SampleObject (take 5 matching_objects_list)
            @ (if length matching_objects_list > 5
               then [SampleMore (length matching_objects_list - 5)] else [])
       else [])"

definition worker_error :: exn where
  "worker_error = OtherException ''max_workers must be greater than 0''"

definition read_groups ::
  "world \<Rightarrow> string \<Rightarrow> string \<Rightarrow> string \<Rightarrow> (run_result + nat \<times> (string \<times> string list) list) \<times> world" where
  "read_groups w csv_file_path object_prefix object_filename =
    (let w0 = emit INFO (ReadingCsv csv_file_path) w in
     case files w csv_file_path of
       Inl e \<Rightarrow> (Inl CsvUnreadable, emit ERROR (ErrorReadingCsv e) w0)
     | Inr df \<Rightarrow>
        if object_prefix \<notin> set (columns df) \<or> object_filename \<notin> set (columns df)
        then (Inl ColumnsMissing,
              emit INFO (AvailableColumns (columns df))
                (emit ERROR (ColumnsNotFound object_prefix object_filename) w0))
        else
          (let df_clean = dropna object_prefix object_filename (rows df);
               groups = location_groups object_prefix object_filename df_clean
           in (Inr (length df_clean, groups),
               emit INFO Phase1Start
                 (emit INFO (FoundUniqueLocations (length groups))
                   (emit INFO (ProcessingRows (length df_clean)) w0)))))"

definition tag_objects_by_pattern ::
  "world \<Rightarrow> string \<Rightarrow> string \<Rightarrow> string \<Rightarrow> string \<Rightarrow> string \<Rightarrow> string \<Rightarrow> int \<Rightarrow> int \<Rightarrow> int
     \<Rightarrow> run_result \<times> world" where
  "tag_objects_by_pattern w csv_file_path bucket_name object_prefix object_filename
       tag_key tag_value max_workers batch_size max_list_workers =
    (case read_groups w csv_file_path object_prefix object_filename of
       (Inl r, w1) \<Rightarrow> (r, w1)
     | (Inr (n_rows, groups), w1) \<Rightarrow>
        if max_list_workers \<le> 0 then (Crashed worker_error, w1)
        else
          (case find_all w1 bucket_name groups [] of
             (matching_objects_list, w2) \<Rightarrow>
               (let w3 = emit INFO (Phase1Complete (length matching_objects_list)) w2 in
                if matching_objects_list = []
                then (NoMatches, emit WARNING NoMatchingObjects w3)
                else
                  (let w4 = emit INFO Phase2Start w3 in
                   if max_workers \<le> 0 then (Crashed worker_error, w4)
                   else
                     (case tagging_phase w4 bucket_name matching_objects_list
                             tag_key tag_value batch_size of
                        (Inl e, w5) \<Rightarrow> (Crashed e, w5)
                      | (Inr c, w5) \<Rightarrow>
                          (Completed c,
                           emit_all INFO
                             (summary n_rows (length groups) matching_objects_list c) w5))))))"

section \<open>Auxiliary definitions\<close>

text \<open>
  What the pattern of a location group compiles to: \<open>alt_tokens\<close> and \<open>alt_items\<close> are the
  tokens and the parsed items of one alternative, \<open>pattern_regex\<close> the whole expression.
\<close>

definition alt_tokens :: "string \<Rightarrow> token list" where
  "alt_tokens fn = map TLit fn @ [TDot, TStar, TLit CHR ''.'', TLit CHR ''m'', TLit CHR ''p'', TLit CHR ''4'']"

definition alt_items :: "string \<Rightarrow> regex list" where
  "alt_items fn = map Lit fn @ [Star Dot, Lit CHR ''.'', Lit CHR ''m'', Lit CHR ''p'', Lit CHR ''4'']"

definition pattern_regex :: "string \<Rightarrow> string list \<Rightarrow> regex" where
  "pattern_regex loc fns =
     seq_of ([Bol] @ map Lit loc @
       [Group (alt_of (map (\<lambda>f. seq_of (alt_items f)) fns)), Eol])"

text \<open>
  Predicates on the remote state. \<open>healthy\<close>: the object exists and neither tagging call
  on it is scripted to fail. \<open>has_tag\<close>: the stored tag set holds the key. \<open>missing\<close>:
  get-tags reports that there is no such object (\<^verbatim>\<open>NoSuchKey\<close>). \<open>tally\<close> is the count that the
  loop over the results keeps.
\<close>

definition healthy :: "world \<Rightarrow> string \<Rightarrow> string \<Rightarrow> bool" where
  "healthy w b k \<longleftrightarrow>
     get_outcome w (b, k) = None \<and> put_fault w (b, k) = None \<and> objects w (b, k) \<noteq> None"

definition has_tag :: "world \<Rightarrow> string \<Rightarrow> string \<Rightarrow> string \<Rightarrow> bool" where
  "has_tag w b k tag_key \<longleftrightarrow>
     (\<exists>ts. objects w (b, k) = Some ts \<and> list_ex (\<lambda>t. Key t = tag_key) ts)"

definition tally :: "(string \<times> bool \<times> string) list \<Rightarrow> counters \<Rightarrow> counters" where
  "tally rs c = foldl (\<lambda>c r. count_result (fst (snd r)) (snd (snd r)) c) c rs"

definition missing :: "world \<Rightarrow> string \<Rightarrow> string \<Rightarrow> bool" where
  "missing w b k \<longleftrightarrow>
     (\<exists>m. fst (get_object_tagging w b k) = Inl (ClientError ''NoSuchKey'' m))"

text \<open>
  What one location group contributes, read off the listing that the world holds for
  its prefix: \<open>received_matches\<close> are the keys of the pages received that match the
  group's pattern, \<open>group_matches\<close> what the group hands to the aggregate, \<open>group_log\<close>
  the records it logs.
\<close>

definition group_prefix :: "string \<times> string list \<Rightarrow> string" where
  "group_prefix g = ''TvShows/'' @ fst g @ ''/''"

definition received_matches :: "world \<Rightarrow> string \<Rightarrow> string \<times> string list \<Rightarrow> string list" where
  "received_matches w b g =
    (case re_compile (full_pattern (group_prefix g) (snd g)) of
       None \<Rightarrow> []
     | Some r \<Rightarrow> concat (map (page_matches r) (fst (listing w (b, group_prefix g)))))"

definition group_matches :: "world \<Rightarrow> string \<Rightarrow> string \<times> string list \<Rightarrow> string list" where
  "group_matches w b g =
    (case snd (listing w (b, group_prefix g)) of
       Some (OtherException s) \<Rightarrow> []
     | _ \<Rightarrow> received_matches w b g)"

definition group_log :: "world \<Rightarrow> string \<Rightarrow> string \<times> string list \<Rightarrow> (level \<times> msg) list" where
  "group_log w b g =
    (let found = (INFO, LocationFound (group_prefix g) (length (received_matches w b g))
                     (full_pattern (group_prefix g) (snd g)))
     in case snd (listing w (b, group_prefix g)) of
          None \<Rightarrow> [found]
        | Some (ClientError code message) \<Rightarrow>
            [(ERROR, ErrorListing (group_prefix g) (ClientError code message)), found]
        | Some (OtherException s) \<Rightarrow>
            [(ERROR, ErrorProcessingLocation (group_prefix g) (OtherException s))])"

text \<open>A world with no file, no object and no failure, from which the examples are built.\<close>

definition quiet_world :: world where
  "quiet_world = \<lparr>files = (\<lambda>_. Inl (OtherException ''No such file'')),
     objects = (\<lambda>_. None), listing = (\<lambda>_. ([], None)),
     get_outcome = (\<lambda>_. None), put_fault = (\<lambda>_. None), calls = [], logged = []\<rparr>"

text \<open>
  An example run: one row, one location group, a listing of one page with two keys, of
  which only the first is still an object when the tagging phase reaches it.
\<close>

definition example_frame :: dataframe where
  "example_frame = \<lparr>columns = [''location_folder'', ''location_file''],
     rows = [[''location_folder'' \<mapsto> ''ShowA/S01'', ''location_file'' \<mapsto> ''ep01'']]\<rparr>"

definition example_world :: world where
  "example_world = quiet_world\<lparr>
     files := (\<lambda>p. if p = ''delete_data/Videos-Test.csv'' then Inr example_frame
                    else Inl (OtherException ''No such file'')),
     listing := (\<lambda>q. if q = (''svodvideos'', ''TvShows/ShowA/S01/'')
                      then ([Some [''TvShows/ShowA/S01/ep01_1080p.mp4'', ''TvShows/ShowA/S01/ep01_720p.mp4'']], None)
                      else ([], None)),
     objects := [(''svodvideos'', ''TvShows/ShowA/S01/ep01_1080p.mp4'') \<mapsto> []]\<rparr>"

text \<open>
  For the grouping loop: \<open>entries\<close> lists the (location, filename) pairs that the groups
  hold, \<open>grouped\<close> is the loop started from any groups.
\<close>

definition entries :: "(string \<times> string list) list \<Rightarrow> (string \<times> string) list" where
  "entries gs = concat (map (\<lambda>g. map (Pair (fst g)) (snd g)) gs)"

definition grouped :: "string \<Rightarrow> string \<Rightarrow> (string \<times> string list) list \<Rightarrow>
    (string \<Rightarrow> string option) list \<Rightarrow> (string \<times> string list) list" where
  "grouped op ofn gs rs =
     foldl (\<lambda>groups row. append_to_group (row_location op row) (row_filename ofn row) groups) gs rs"


section \<open>The compiled pattern\<close>

subsection \<open>Tokenizing an escaped string\<close>

lemma special_not_alnum: "c \<in> set special_chars \<Longrightarrow> \<not> is_ascii_alnum c"
  by (auto simp: special_chars_def is_ascii_alnum_def backslash_def)

lemma plain_token: "c \<notin> set special_chars \<Longrightarrow>
  c \<noteq> backslash \<and> c \<notin> set ''[]{}?+'' \<and> token_of c = TLit c"
  by (auto simp: special_chars_def token_of_def)

lemma tokenize_escape:
  "tokenize (re_escape s @ rest) = map_option ((@) (map TLit s)) (tokenize rest)"
proof (induction s)
  case Nil
  show ?case by (simp add: re_escape_def option.map_ident)
next
  case (Cons c s)
  have step: "re_escape (c # s) = (if c \<in> set special_chars then [backslash, c] else [c]) @ re_escape s"
    by (simp add: re_escape_def)
  show ?case
  proof (cases "c \<in> set special_chars")
    case True
    then show ?thesis
      using special_not_alnum[OF True] Cons.IH
      by (simp add: step option.map_comp comp_def)
  next
    case False
    then show ?thesis
      using plain_token[OF False] Cons.IH
      by (simp add: step option.map_comp comp_def)
  qed
qed

lemma tokenize_piece:
  "tokenize ((re_escape fn @ ''.*'' @ [backslash] @ ''.mp4'') @ rest) =
     map_option ((@) (alt_tokens fn)) (tokenize rest)"
  by (cases "tokenize rest")
     (simp_all add: tokenize_escape alt_tokens_def token_of_def backslash_def is_ascii_alnum_def)

lemma tokenize_join:
  "tokenize (join ''|'' (map (\<lambda>fn. fn @ ''.*'' @ [backslash] @ ''.mp4'') (map re_escape fns)) @ rest) =
     map_option ((@) (join [TBar] (map alt_tokens fns))) (tokenize rest)"
proof (induction fns rule: induct_list012)
  case 1
  show ?case by (simp add: option.map_ident)
next
  case (2 x)
  show ?case using tokenize_piece[of x rest] by simp
next
  case (3 x y ys)
  let ?tail = "join ''|'' (map (\<lambda>fn. fn @ ''.*'' @ [backslash] @ ''.mp4'') (map re_escape (y # ys))) @ rest"
  have bar: "tokenize (''|'' @ ?tail) = map_option ((#) TBar) (tokenize ?tail)"
    by (simp add: token_of_def backslash_def)
  show ?case
    using tokenize_piece[of x "''|'' @ ?tail"] "3.IH"(2) bar
    by (cases "tokenize rest") simp_all
qed


subsection \<open>Parsing\<close>

lemma parse_tokens_append:
  "parse_tokens (xs @ ys) st =
     (case parse_tokens xs st of None \<Rightarrow> None | Some st' \<Rightarrow> parse_tokens ys st')"
  by (induction xs arbitrary: st) (auto split: option.splits)

lemma parse_lits:
  "parse_tokens (map TLit s) ((al, cur) # st) = Some ((al, rev (map Lit s) @ cur) # st)"
  by (induction s arbitrary: cur) auto

lemma parse_alt_tokens:
  "parse_tokens (alt_tokens fn) ((al, []) # st) = Some ((al, rev (alt_items fn)) # st)"
  by (simp add: alt_tokens_def alt_items_def parse_tokens_append parse_lits)

lemma parse_join:
  "parse_tokens (join [TBar] (map alt_tokens (fn # fns))) ((al, []) # st) =
     Some ((rev (map (\<lambda>f. seq_of (alt_items f)) (butlast (fn # fns))) @ al,
            rev (alt_items (last (fn # fns)))) # st)"
proof (induction fns arbitrary: fn al)
  case Nil
  show ?case by (simp add: parse_alt_tokens)
next
  case (Cons g gs)
  show ?case
    using Cons.IH[of g "seq_of (alt_items fn) # al"]
    by (simp add: parse_tokens_append parse_alt_tokens)
qed

lemma close_alternatives:
  "close_frame (rev (map f (butlast (x # xs))), rev (items (last (x # xs)))) =
     alt_of (map f (butlast (x # xs)) @ [seq_of (items (last (x # xs)))])"
  by (simp add: close_frame_def)

lemma alternatives_snoc:
  "xs \<noteq> [] \<Longrightarrow> map f (butlast xs) @ [f (last xs)] = map f xs"
  by (induction xs) auto

lemma tokenize_full_pattern:
  "tokenize (full_pattern location fns) =
      Some ([TCaret] @ map TLit location @ [TLParen] @ join [TBar] (map alt_tokens fns) @ [TRParen, TDollar])"
proof -
  define J where "J = join ''|'' (map (\<lambda>fn. fn @ ''.*'' @ [backslash] @ ''.mp4'') (map re_escape fns))"
  define A where "A = join [TBar] (map alt_tokens fns)"
  have fp: "full_pattern location fns = CHR ''^'' # (re_escape location @ (CHR ''('' # (J @ '')$'')))"
    by (simp add: full_pattern_def J_def)
  have t4: "tokenize '')$'' = Some [TRParen, TDollar]"
    by (simp add: token_of_def backslash_def)
  have t3: "tokenize (J @ '')$'') = Some (A @ [TRParen, TDollar])"
    unfolding J_def A_def tokenize_join t4 by simp
  have t2: "tokenize (CHR ''('' # (J @ '')$'')) = Some (TLParen # A @ [TRParen, TDollar])"
    by (simp add: t3 token_of_def backslash_def)
  have t1: "tokenize (re_escape location @ (CHR ''('' # (J @ '')$''))) =
      Some (map TLit location @ TLParen # A @ [TRParen, TDollar])"
    unfolding tokenize_escape t2 by simp
  have "tokenize (full_pattern location fns) = Some (TCaret # map TLit location @ TLParen # A @ [TRParen, TDollar])"
    unfolding fp by (simp add: t1 token_of_def backslash_def)
  then show ?thesis by (simp add: A_def)
qed


lemma parse_full_tokens:
  assumes "fns \<noteq> []"
  shows "parse_tokens ([TCaret] @ map TLit location @ [TLParen] @ join [TBar] (map alt_tokens fns) @ [TRParen, TDollar]) [([], [])] =
      Some [([], rev ([Bol] @ map Lit location @ [Group (alt_of (map (\<lambda>f. seq_of (alt_items f)) fns)), Eol]))]"
proof -
  obtain x xs where fns: "fns = x # xs" using assms by (cases fns) auto
  define A where "A = join [TBar] (map alt_tokens fns)"
  define F where "F = (\<lambda>f. seq_of (alt_items f))"
  define fr :: frame where "fr = (rev (map F (butlast fns)), rev (alt_items (last fns)))"
  have pj: "parse_tokens A (([], []) # st) = Some (fr # st)" for st
    unfolding A_def fns fr_def F_def using parse_join[of x xs "[]" st] by simp
  have cl: "close_frame fr = alt_of (map F fns)"
    unfolding fr_def close_frame_def using alternatives_snoc[OF assms, of F]
    by (simp add: F_def)
  have p1: "parse_tokens [TCaret] [([], [])] = Some [([], [Bol])]" by simp
  have p2: "parse_tokens (map TLit location) [([], [Bol])] = Some [([], rev (map Lit location) @ [Bol])]"
    by (rule parse_lits)
  have p3: "parse_tokens [TLParen] [([], rev (map Lit location) @ [Bol])] =
      Some [([], []), ([], rev (map Lit location) @ [Bol])]" by simp
  have p5: "parse_tokens [TRParen, TDollar] [fr, ([], rev (map Lit location) @ [Bol])] =
      Some [([], Eol # Group (close_frame fr) # rev (map Lit location) @ [Bol])]" by simp
  have "parse_tokens ([TCaret] @ map TLit location @ [TLParen] @ A @ [TRParen, TDollar]) [([], [])] =
      Some [([], Eol # Group (close_frame fr) # rev (map Lit location) @ [Bol])]"
    unfolding parse_tokens_append p1 option.case p2 p3 pj p5 ..
  then show ?thesis unfolding cl A_def F_def by simp
qed

lemma re_compile_full_pattern:
  assumes "fns \<noteq> []"
  shows "re_compile (full_pattern location fns) = Some (pattern_regex location fns)"
proof -
  have "re_compile (full_pattern location fns) =
      Some (close_frame ([], rev ([Bol] @ map Lit location @ [Group (alt_of (map (\<lambda>f. seq_of (alt_items f)) fns)), Eol])))"
    by (simp only: re_compile_def tokenize_full_pattern parse_full_tokens[OF assms] option.case list.case)
  then show ?thesis
    by (simp add: close_frame_def pattern_regex_def)
qed

subsection \<open>What the compiled pattern matches\<close>

lemma star_iter_Nil: "star_iter f k [] = []"
  by (induction k) auto

lemma dot_step:
  "rmatch Dot (n, t) = (case t of [] \<Rightarrow> [] | x # xs \<Rightarrow> if x = newline then [] else [(Suc n, xs)])"
  by simp

lemma dot_iter:
  "(m, u) \<in> set (star_iter (rmatch Dot) k [(n, t)]) \<longleftrightarrow>
     (\<exists>mid. t = mid @ u \<and> m = n + length mid \<and> length mid \<le> k \<and> newline \<notin> set mid)"
proof (induction k arbitrary: n t)
  case 0
  show ?case by auto
next
  case (Suc k)
  show ?case
  proof (cases t)
    case Nil
    then show ?thesis by (auto simp: star_iter_Nil)
  next
    case (Cons x xs)
    show ?thesis
    proof (cases "x = newline")
      case True
      then show ?thesis using Cons
        by (auto simp: star_iter_Nil Cons_eq_append_conv)
    next
      case False
      have "(m, u) \<in> set (star_iter (rmatch Dot) (Suc k) [(n, t)]) \<longleftrightarrow>
          (m, u) = (n, t) \<or> (m, u) \<in> set (star_iter (rmatch Dot) k [(Suc n, xs)])"
        using Cons False by simp
      also have "\<dots> \<longleftrightarrow> (m, u) = (n, t) \<or>
          (\<exists>mid. xs = mid @ u \<and> m = Suc n + length mid \<and> length mid \<le> k \<and> newline \<notin> set mid)"
        by (simp only: Suc.IH)
      also have "\<dots> \<longleftrightarrow>
          (\<exists>mid. t = mid @ u \<and> m = n + length mid \<and> length mid \<le> Suc k \<and> newline \<notin> set mid)"
        (is "?L \<longleftrightarrow> ?R")
      proof
        assume ?L
        then show ?R
        proof
          assume "(m, u) = (n, t)"
          then show ?R by (intro exI[of _ "[]"]) simp
        next
          assume "\<exists>mid. xs = mid @ u \<and> m = Suc n + length mid \<and> length mid \<le> k \<and> newline \<notin> set mid"
          then obtain mid where "xs = mid @ u" "m = Suc n + length mid" "length mid \<le> k" "newline \<notin> set mid"
            by blast
          then show ?R using Cons False by (intro exI[of _ "x # mid"]) simp
        qed
      next
        assume ?R
        then obtain mid where mid: "t = mid @ u" "m = n + length mid" "length mid \<le> Suc k" "newline \<notin> set mid"
          by blast
        show ?L
        proof (cases mid)
          case Nil
          then show ?thesis using mid by simp
        next
          case (Cons y ys)
          then show ?thesis using mid \<open>t = x # xs\<close> by auto
        qed
      qed
      finally show ?thesis .
    qed
  qed
qed

lemma star_dot:
  "(m, u) \<in> set (rmatch (Star Dot) (n, t)) \<longleftrightarrow>
     (\<exists>mid. t = mid @ u \<and> m = n + length mid \<and> newline \<notin> set mid)"
proof -
  have "(m, u) \<in> set (rmatch (Star Dot) (n, t)) \<longleftrightarrow>
      (m, u) \<in> set (star_iter (rmatch Dot) (Suc (length t)) [(n, t)])"
    by simp
  also have "\<dots> \<longleftrightarrow> (\<exists>mid. t = mid @ u \<and> m = n + length mid \<and> length mid \<le> Suc (length t) \<and> newline \<notin> set mid)"
    by (rule dot_iter)
  also have "\<dots> \<longleftrightarrow> (\<exists>mid. t = mid @ u \<and> m = n + length mid \<and> newline \<notin> set mid)"
    by auto
  finally show ?thesis .
qed

lemma cat_iff:
  "q \<in> set (rmatch (Cat a b) p) \<longleftrightarrow> (\<exists>p' \<in> set (rmatch a p). q \<in> set (rmatch b p'))"
  by auto

lemma lit_iff:
  "q \<in> set (rmatch (Lit c) (n, t)) \<longleftrightarrow> (\<exists>t'. t = c # t' \<and> q = (Suc n, t'))"
  by (cases t) auto

lemma lits_iff:
  "q \<in> set (rmatch (seq_of (map Lit s @ rs)) (n, t)) \<longleftrightarrow>
     (\<exists>t'. t = s @ t' \<and> q \<in> set (rmatch (seq_of rs) (n + length s, t')))"
proof (induction s arbitrary: n t)
  case Nil
  show ?case by simp
next
  case (Cons c s)
  have "q \<in> set (rmatch (seq_of (map Lit (c # s) @ rs)) (n, t)) \<longleftrightarrow>
      (\<exists>t'. t = c # t' \<and> q \<in> set (rmatch (seq_of (map Lit s @ rs)) (Suc n, t')))"
    by (cases t) auto
  also have "\<dots> \<longleftrightarrow> (\<exists>t'. t = c # t' \<and> (\<exists>t''. t' = s @ t'' \<and> q \<in> set (rmatch (seq_of rs) (Suc n + length s, t''))))"
    by (simp only: Cons.IH)
  also have "\<dots> \<longleftrightarrow> (\<exists>t'. t = (c # s) @ t' \<and> q \<in> set (rmatch (seq_of rs) (n + length (c # s), t')))"
    by auto
  finally show ?case .
qed

lemma alt_iff:
  "rs \<noteq> [] \<Longrightarrow> q \<in> set (rmatch (alt_of rs) p) \<longleftrightarrow> (\<exists>r \<in> set rs. q \<in> set (rmatch r p))"
  by (induction rs rule: alt_of.induct) auto

lemma alt_items_iff:
  "(m, u) \<in> set (rmatch (seq_of (alt_items fn)) (n, t)) \<longleftrightarrow>
     (\<exists>mid. t = fn @ mid @ ''.mp4'' @ u \<and> newline \<notin> set mid \<and> m = n + length fn + length mid + 4)"
proof -
  have tail: "(m, u) \<in> set (rmatch (seq_of [Lit CHR ''.'', Lit CHR ''m'', Lit CHR ''p'', Lit CHR ''4'']) (k, v))
      \<longleftrightarrow> v = ''.mp4'' @ u \<and> m = k + 4" for k v
    using lits_iff[of "(m, u)" "''.mp4''" "[]" k v] by auto
  have "(m, u) \<in> set (rmatch (seq_of (alt_items fn)) (n, t)) \<longleftrightarrow>
      (\<exists>t'. t = fn @ t' \<and> (m, u) \<in> set (rmatch (seq_of [Star Dot, Lit CHR ''.'', Lit CHR ''m'', Lit CHR ''p'', Lit CHR ''4'']) (n + length fn, t')))"
    unfolding alt_items_def by (rule lits_iff)
  also have "\<dots> \<longleftrightarrow> (\<exists>t'. t = fn @ t' \<and>
      (\<exists>k v. (k, v) \<in> set (rmatch (Star Dot) (n + length fn, t')) \<and>
         (m, u) \<in> set (rmatch (seq_of [Lit CHR ''.'', Lit CHR ''m'', Lit CHR ''p'', Lit CHR ''4'']) (k, v))))"
    by (simp only: seq_of.simps(2)[of "Star Dot"] cat_iff Bex_def split_paired_Ex)
  also have "\<dots> \<longleftrightarrow> (\<exists>t'. t = fn @ t' \<and>
      (\<exists>k v. (\<exists>mid. t' = mid @ v \<and> k = n + length fn + length mid \<and> newline \<notin> set mid) \<and>
         v = ''.mp4'' @ u \<and> m = k + 4))"
    by (simp only: star_dot tail)
  also have "\<dots> \<longleftrightarrow> (\<exists>mid. t = fn @ mid @ ''.mp4'' @ u \<and> newline \<notin> set mid \<and> m = n + length fn + length mid + 4)"
    by auto
  finally show ?thesis .
qed

lemma eol_iff:
  "q \<in> set (rmatch (seq_of [Eol]) (m, u)) \<longleftrightarrow> q = (m, u) \<and> (u = [] \<or> u = [newline])"
  by auto

lemma group_alternatives_iff:
  assumes "fns \<noteq> []"
  shows "(m, u) \<in> set (rmatch (Group (alt_of (map (\<lambda>f. seq_of (alt_items f)) fns))) (n, t)) \<longleftrightarrow>
     (\<exists>fn \<in> set fns. \<exists>mid. t = fn @ mid @ ''.mp4'' @ u \<and> newline \<notin> set mid \<and>
        m = n + length fn + length mid + 4)"
proof -
  have ne: "map (\<lambda>f. seq_of (alt_items f)) fns \<noteq> []" using assms by simp
  have "(m, u) \<in> set (rmatch (Group (alt_of (map (\<lambda>f. seq_of (alt_items f)) fns))) (n, t)) \<longleftrightarrow>
      (\<exists>r \<in> set (map (\<lambda>f. seq_of (alt_items f)) fns). (m, u) \<in> set (rmatch r (n, t)))"
    using alt_iff[OF ne] by simp
  also have "\<dots> \<longleftrightarrow> (\<exists>fn \<in> set fns. (m, u) \<in> set (rmatch (seq_of (alt_items fn)) (n, t)))"
    by auto
  finally show ?thesis by (simp only: alt_items_iff)
qed

lemma pattern_regex_match:
  assumes "fns \<noteq> []"
  shows "re_match (pattern_regex location fns) key \<longleftrightarrow>
     (\<exists>fn \<in> set fns. \<exists>mid tail. key = location @ fn @ mid @ ''.mp4'' @ tail \<and>
        newline \<notin> set mid \<and> (tail = [] \<or> tail = [newline]))"
proof -
  let ?G = "Group (alt_of (map (\<lambda>f. seq_of (alt_items f)) fns))"
  have inner: "q \<in> set (rmatch (seq_of [?G, Eol]) (n, t)) \<longleftrightarrow>
      (\<exists>m u. q = (m, u) \<and> (u = [] \<or> u = [newline]) \<and>
         (\<exists>fn \<in> set fns. \<exists>mid. t = fn @ mid @ ''.mp4'' @ u \<and> newline \<notin> set mid \<and>
            m = n + length fn + length mid + 4))" for q n t
  proof -
    have "q \<in> set (rmatch (seq_of [?G, Eol]) (n, t)) \<longleftrightarrow>
        (\<exists>m u. (m, u) \<in> set (rmatch ?G (n, t)) \<and> q \<in> set (rmatch (seq_of [Eol]) (m, u)))"
      by (simp only: seq_of.simps(2)[of ?G] cat_iff Bex_def split_paired_Ex)
    also have "\<dots> \<longleftrightarrow> (\<exists>m u. (\<exists>fn \<in> set fns. \<exists>mid. t = fn @ mid @ ''.mp4'' @ u \<and> newline \<notin> set mid \<and>
            m = n + length fn + length mid + 4) \<and> q = (m, u) \<and> (u = [] \<or> u = [newline]))"
      by (simp only: group_alternatives_iff[OF assms] eol_iff)
    finally show ?thesis by blast
  qed
  have "re_match (pattern_regex location fns) key \<longleftrightarrow>
      (\<exists>q. q \<in> set (rmatch (seq_of (map Lit location @ [?G, Eol])) (0, key)))"
  proof -
    have "xs \<noteq> [] \<longleftrightarrow> (\<exists>q. q \<in> set xs)" for xs :: "pos list"
      by (cases xs) auto
    then show ?thesis by (simp add: re_match_def pattern_regex_def)
  qed
  also have "\<dots> \<longleftrightarrow> (\<exists>q t'. key = location @ t' \<and> q \<in> set (rmatch (seq_of [?G, Eol]) (0 + length location, t')))"
    by (simp only: lits_iff)
  also have "\<dots> \<longleftrightarrow> (\<exists>fn \<in> set fns. \<exists>mid tail. key = location @ fn @ mid @ ''.mp4'' @ tail \<and>
        newline \<notin> set mid \<and> (tail = [] \<or> tail = [newline]))"
    unfolding inner by blast
  finally show ?thesis .
qed

section \<open>Tagging one object: what is written and when\<close>

lemma get_object_tagging_world:
  "snd (get_object_tagging w b k) = w\<lparr>calls := calls w @ [GetObjectTagging b k]\<rparr>"
  by (simp add: get_object_tagging_def Let_def split: option.splits)

lemma tag_single_object_already:
  assumes "fst (get_object_tagging w b k) = Inr (Some ts)"
    and "list_ex (\<lambda>t. Key t = tag_key) ts"
  shows "tag_single_object w b k tag_key tag_value =
           ((k, True, ''Tag already exists''), w\<lparr>calls := calls w @ [GetObjectTagging b k]\<rparr>)"
proof -
  have "get_object_tagging w b k = (Inr (Some ts), w\<lparr>calls := calls w @ [GetObjectTagging b k]\<rparr>)"
    using assms(1) get_object_tagging_world[of w b k] by (cases "get_object_tagging w b k") simp
  then show ?thesis
    using assms(2) by (simp add: tag_single_object_def tag_with_existing_def)
qed

text \<open>
  The test for an existing tag looks at keys only. When the get-tags call returns a tag
  set that holds an entry with the target key and another value, \<open>tag_single_object\<close>
  reports success with the message "Tag already exists", the only remote call it makes
  is the get-tags call, and the stored tag sets are as before.
\<close>

lemma key_only_check_when_tags_are_fetched:
  assumes "fst (get_object_tagging w b k) = Inr (Some ts)"
    and "t \<in> set ts" and "Key t = tag_key" and "Value t \<noteq> tag_value"
  shows "tag_single_object w b k tag_key tag_value =
           ((k, True, ''Tag already exists''), w\<lparr>calls := calls w @ [GetObjectTagging b k]\<rparr>)
       \<and> objects (snd (tag_single_object w b k tag_key tag_value)) = objects w
       \<and> (\<forall>ts'. PutObjectTagging b k ts' \<notin>
              set (calls (snd (tag_single_object w b k tag_key tag_value))) - set (calls w))"
proof -
  have "list_ex (\<lambda>t. Key t = tag_key) ts"
    using assms(2,3) by (auto simp: list_ex_iff)
  from tag_single_object_already[OF assms(1) this, of tag_value]
  show ?thesis by simp
qed

text \<open>
  C9. An object carries the tag \<open>PERMANENT_DELETE = PENDING\<close>: the target key with
  another value. When get-tags returns the tag set, the attempt reports "Tag already
  exists" and writes nothing. When get-tags fails with a \<^verbatim>\<open>ClientError\<close> whose code is
  not \<^verbatim>\<open>NoSuchKey\<close> (here \<^verbatim>\<open>SlowDown\<close>), line 109 takes the existing tag set to be empty,
  the test for the key finds nothing, and the put-tags call writes
  \<open>PERMANENT_DELETE = CONFIRMED\<close> over the entry and reports "Successfully tagged".
\<close>

theorem get_failure_overwrites_existing_value:
  "(let w = quiet_world\<lparr>
         objects := [(''svodvideos'', ''TvShows/A/e1.mp4'') \<mapsto>
                       [\<lparr>Key = ''PERMANENT_DELETE'', Value = ''PENDING''\<rparr>]]\<rparr>;
        ok = tag_single_object w ''svodvideos'' ''TvShows/A/e1.mp4'' ''PERMANENT_DELETE'' ''CONFIRMED'';
        w' = w\<lparr>get_outcome := [(''svodvideos'', ''TvShows/A/e1.mp4'') \<mapsto>
                           Inl (ClientError ''SlowDown'' ''Please reduce your request rate.'')]\<rparr>;
        r = tag_single_object w' ''svodvideos'' ''TvShows/A/e1.mp4'' ''PERMANENT_DELETE'' ''CONFIRMED''
    in fst ok = (''TvShows/A/e1.mp4'', True, ''Tag already exists'')
       \<and> calls (snd ok) = [GetObjectTagging ''svodvideos'' ''TvShows/A/e1.mp4'']
       \<and> objects w' (''svodvideos'', ''TvShows/A/e1.mp4'') =
            Some [\<lparr>Key = ''PERMANENT_DELETE'', Value = ''PENDING''\<rparr>]
       \<and> fst r = (''TvShows/A/e1.mp4'', True, ''Successfully tagged'')
       \<and> objects (snd r) (''svodvideos'', ''TvShows/A/e1.mp4'') =
            Some [\<lparr>Key = ''PERMANENT_DELETE'', Value = ''CONFIRMED''\<rparr>]
       \<and> calls (snd r) = [GetObjectTagging ''svodvideos'' ''TvShows/A/e1.mp4'',
            PutObjectTagging ''svodvideos'' ''TvShows/A/e1.mp4''
              [\<lparr>Key = ''PERMANENT_DELETE'', Value = ''CONFIRMED''\<rparr>]])"
  by (simp add: quiet_world_def tag_single_object_def tag_with_existing_def
      get_object_tagging_def put_object_tagging_def Let_def)

text \<open>
  C1. An object carries the tag \<open>owner = media\<close>. The get-tags call fails with a
  \<^verbatim>\<open>ClientError\<close> whose code is not \<^verbatim>\<open>NoSuchKey\<close> (here \<^verbatim>\<open>AccessDenied\<close>); the put-tags call
  works. \<open>tag_single_object\<close> takes the existing tag set to be empty, writes the tag set
  that holds the target tag alone, and reports "Successfully tagged": the tag
  \<open>owner\<close> is gone from the object.
\<close>

theorem get_failure_replaces_existing_tags:
  "(let w = quiet_world\<lparr>
         objects := [(''svodvideos'', ''TvShows/A/e1.mp4'') \<mapsto> [\<lparr>Key = ''owner'', Value = ''media''\<rparr>]],
         get_outcome := [(''svodvideos'', ''TvShows/A/e1.mp4'') \<mapsto>
                           Inl (ClientError ''AccessDenied'' ''Access Denied'')]\<rparr>;
        r = tag_single_object w ''svodvideos'' ''TvShows/A/e1.mp4'' ''PERMANENT_DELETE'' ''CONFIRMED''
    in objects w (''svodvideos'', ''TvShows/A/e1.mp4'') = Some [\<lparr>Key = ''owner'', Value = ''media''\<rparr>]
       \<and> fst r = (''TvShows/A/e1.mp4'', True, ''Successfully tagged'')
       \<and> objects (snd r) (''svodvideos'', ''TvShows/A/e1.mp4'') =
            Some [\<lparr>Key = ''PERMANENT_DELETE'', Value = ''CONFIRMED''\<rparr>]
       \<and> calls (snd r) = [GetObjectTagging ''svodvideos'' ''TvShows/A/e1.mp4'',
            PutObjectTagging ''svodvideos'' ''TvShows/A/e1.mp4''
              [\<lparr>Key = ''PERMANENT_DELETE'', Value = ''CONFIRMED''\<rparr>]])"
  by (simp add: quiet_world_def tag_single_object_def tag_with_existing_def
      get_object_tagging_def put_object_tagging_def Let_def)

section \<open>The tagging phase: invariants and counts\<close>

lemma emit_fields [simp]:
  "files (emit l m w) = files w" "objects (emit l m w) = objects w"
  "listing (emit l m w) = listing w" "get_outcome (emit l m w) = get_outcome w"
  "put_fault (emit l m w) = put_fault w" "calls (emit l m w) = calls w"
  "logged (emit l m w) = logged w @ [(l, m)]"
  by (simp_all add: emit_def)

lemma put_object_tagging_frame:
  assumes "put_object_tagging w b k ts = (r, w')"
  shows "files w' = files w" "listing w' = listing w" "get_outcome w' = get_outcome w"
    "put_fault w' = put_fault w" "logged w' = logged w"
    "calls w' = calls w @ [PutObjectTagging b k ts]"
    "objects w' = objects w \<or> (objects w (b, k) \<noteq> None \<and> objects w' = (objects w)((b, k) \<mapsto> ts))"
  using assms by (auto simp: put_object_tagging_def Let_def split: option.splits)

lemma tag_with_existing_frame:
  assumes "tag_with_existing w b k tag_key tag_value ex = (r, w')"
  shows "files w' = files w" "listing w' = listing w" "get_outcome w' = get_outcome w"
    "put_fault w' = put_fault w" "logged w' = logged w"
    "objects w' = objects w \<or>
       (objects w (b, k) \<noteq> None \<and>
        objects w' = (objects w)((b, k) \<mapsto> ex @ [\<lparr>Key = tag_key, Value = tag_value\<rparr>]))"
  using assms
  by (auto simp: tag_with_existing_def split: if_splits prod.splits sum.splits exn.splits
      dest: put_object_tagging_frame)

lemma tag_single_object_frame:
  assumes "tag_single_object w b k tag_key tag_value = (r, w')"
  shows "files w' = files w" "listing w' = listing w" "get_outcome w' = get_outcome w"
    "put_fault w' = put_fault w" "logged w' = logged w"
    "objects w' = objects w \<or>
       (\<exists>ex. objects w (b, k) \<noteq> None \<and>
        objects w' = (objects w)((b, k) \<mapsto> ex @ [\<lparr>Key = tag_key, Value = tag_value\<rparr>]))"
proof -
  obtain g where g: "get_object_tagging w b k = (g, w\<lparr>calls := calls w @ [GetObjectTagging b k]\<rparr>)"
    using get_object_tagging_world[of w b k] by (cases "get_object_tagging w b k") simp
  let ?w1 = "w\<lparr>calls := calls w @ [GetObjectTagging b k]\<rparr>"
  consider (nf) "w' = ?w1" | (tw) ex where "tag_with_existing ?w1 b k tag_key tag_value ex = (r, w')"
    using assms g
    by (auto simp: tag_single_object_def split: sum.splits exn.splits if_splits)
  then have "files w' = files w \<and> listing w' = listing w \<and> get_outcome w' = get_outcome w \<and>
    put_fault w' = put_fault w \<and> logged w' = logged w \<and>
    (objects w' = objects w \<or>
       (\<exists>ex. objects w (b, k) \<noteq> None \<and>
        objects w' = (objects w)((b, k) \<mapsto> ex @ [\<lparr>Key = tag_key, Value = tag_value\<rparr>])))"
  proof cases
    case nf
    then show ?thesis by simp
  next
    case tw
    from tag_with_existing_frame[OF tw] show ?thesis by auto
  qed
  then show "files w' = files w" "listing w' = listing w" "get_outcome w' = get_outcome w"
    "put_fault w' = put_fault w" "logged w' = logged w"
    "objects w' = objects w \<or>
       (\<exists>ex. objects w (b, k) \<noteq> None \<and>
        objects w' = (objects w)((b, k) \<mapsto> ex @ [\<lparr>Key = tag_key, Value = tag_value\<rparr>]))"
    by blast+
qed

lemma has_tag_preserved:
  assumes "tag_single_object w b' k' tag_key tag_value = (r, w')" and "has_tag w b k tag_key"
  shows "has_tag w' b k tag_key"
  using tag_single_object_frame(6)[OF assms(1)] assms(2)
  by (auto simp: has_tag_def)

lemma exists_preserved:
  assumes "tag_single_object w b' k' tag_key tag_value = (r, w')"
  shows "objects w' x = None \<longleftrightarrow> objects w x = None"
  using tag_single_object_frame(6)[OF assms(1)] by (auto split: if_splits)

lemma healthy_preserved:
  assumes "tag_single_object w b' k' tag_key tag_value = (r, w')" and "healthy w b k"
  shows "healthy w' b k"
  using tag_single_object_frame(3,4)[OF assms(1)] exists_preserved[OF assms(1)] assms(2)
  by (simp add: healthy_def)

lemma tag_single_object_healthy:
  assumes "healthy w b k" and "tag_single_object w b k tag_key tag_value = (r, w')"
  shows "has_tag w' b k tag_key"
proof -
  obtain ts where ts: "objects w (b, k) = Some ts" using assms(1) by (auto simp: healthy_def)
  have g: "get_object_tagging w b k = (Inr (Some ts), w\<lparr>calls := calls w @ [GetObjectTagging b k]\<rparr>)"
    using assms(1) ts by (simp add: get_object_tagging_def healthy_def Let_def)
  show ?thesis
    using assms g ts
    by (auto simp: tag_single_object_def tag_with_existing_def put_object_tagging_def Let_def
        healthy_def has_tag_def split: if_splits)
qed

lemma tag_all_frame:
  assumes "tag_all w b keys tag_key tag_value = (rs, w')"
  shows "files w' = files w \<and> listing w' = listing w \<and> get_outcome w' = get_outcome w \<and>
    put_fault w' = put_fault w \<and> logged w' = logged w \<and>
    (\<forall>x. objects w' x = None \<longleftrightarrow> objects w x = None) \<and>
    (\<forall>b'' k''. has_tag w b'' k'' tag_key \<longrightarrow> has_tag w' b'' k'' tag_key) \<and>
    (\<forall>k'' \<in> set keys. healthy w b k'' \<longrightarrow> has_tag w' b k'' tag_key) \<and>
    length rs = length keys"
  using assms
proof (induction keys arbitrary: w rs)
  case Nil
  then show ?case by simp
next
  case (Cons k keys)
  obtain r w1 where one: "tag_single_object w b k tag_key tag_value = (r, w1)"
    by (cases "tag_single_object w b k tag_key tag_value")
  obtain rs' where rest: "tag_all w1 b keys tag_key tag_value = (rs', w')" and rs: "rs = r # rs'"
    using Cons.prems one by (auto split: prod.splits)
  note IH = Cons.IH[OF rest]
  note fr = tag_single_object_frame[OF one]
  have "\<forall>k'' \<in> set (k # keys). healthy w b k'' \<longrightarrow> has_tag w' b k'' tag_key"
  proof
    fix k'' assume "k'' \<in> set (k # keys)"
    show "healthy w b k'' \<longrightarrow> has_tag w' b k'' tag_key"
    proof
      assume h: "healthy w b k''"
      show "has_tag w' b k'' tag_key"
      proof (cases "k'' = k")
        case True
        then have "has_tag w1 b k'' tag_key" using tag_single_object_healthy[OF _ one] h by simp
        then show ?thesis using IH by blast
      next
        case False
        then have "k'' \<in> set keys" using \<open>k'' \<in> set (k # keys)\<close> by simp
        moreover have "healthy w1 b k''" using healthy_preserved[OF one h] .
        ultimately show ?thesis using IH by blast
      qed
    qed
  qed
  moreover have "\<forall>b'' k''. has_tag w b'' k'' tag_key \<longrightarrow> has_tag w' b'' k'' tag_key"
    using has_tag_preserved[OF one] IH by blast
  moreover have "\<forall>x. objects w' x = None \<longleftrightarrow> objects w x = None"
    using exists_preserved[OF one] IH by simp
  ultimately show ?case using IH fr(1-5) rs by simp
qed

lemma tag_all_already:
  assumes "\<forall>k \<in> set keys. get_outcome w (b, k) = None \<and> has_tag w b k tag_key"
  shows "tag_all w b keys tag_key tag_value =
     (map (\<lambda>k. (k, True, ''Tag already exists'')) keys,
      w\<lparr>calls := calls w @ map (GetObjectTagging b) keys\<rparr>)"
  using assms
proof (induction keys arbitrary: w)
  case Nil
  show ?case by simp
next
  case (Cons k keys)
  obtain ts where ts: "objects w (b, k) = Some ts" "list_ex (\<lambda>t. Key t = tag_key) ts"
    using Cons.prems by (auto simp: has_tag_def)
  have g: "fst (get_object_tagging w b k) = Inr (Some ts)"
    using Cons.prems ts by (simp add: get_object_tagging_def Let_def)
  let ?w1 = "w\<lparr>calls := calls w @ [GetObjectTagging b k]\<rparr>"
  have one: "tag_single_object w b k tag_key tag_value = ((k, True, ''Tag already exists''), ?w1)"
    by (rule tag_single_object_already[OF g ts(2)])
  have "\<forall>k \<in> set keys. get_outcome ?w1 (b, k) = None \<and> has_tag ?w1 b k tag_key"
    using Cons.prems by (simp add: has_tag_def)
  from Cons.IH[OF this] show ?case using one by simp
qed

lemma process_results_ok:
  assumes "batch_size \<noteq> 0"
  shows "\<exists>w'. process_results batch_size n i rs c w = (Inr (tally rs c), w') \<and>
     files w' = files w \<and> objects w' = objects w \<and> listing w' = listing w \<and>
     get_outcome w' = get_outcome w \<and> put_fault w' = put_fault w \<and> calls w' = calls w \<and>
     set (logged w) \<subseteq> set (logged w') \<and>
     (\<forall>r \<in> set rs. \<not> fst (snd r) \<longrightarrow> (WARNING, FailedToTag (fst r) (snd (snd r))) \<in> set (logged w'))"
proof (induction rs arbitrary: i c w)
  case Nil
  show ?case by (simp add: tally_def)
next
  case (Cons r rs)
  obtain k s m where r: "r = (k, s, m)" by (cases r)
  let ?c = "count_result s m c"
  let ?w1 = "if s then w else emit WARNING (FailedToTag k m) w"
  let ?w2 = "if int i mod batch_size = 0 \<or> i = n then emit INFO (TaggingProgress i n) ?w1 else ?w1"
  have step: "process_results batch_size n i (r # rs) c w = process_results batch_size n (Suc i) rs ?c ?w2"
    using assms by (simp add: r Let_def)
  from Cons.IH[of "Suc i" ?c ?w2] obtain w' where
    w': "process_results batch_size n (Suc i) rs ?c ?w2 = (Inr (tally rs ?c), w')"
      "files w' = files ?w2" "objects w' = objects ?w2" "listing w' = listing ?w2"
      "get_outcome w' = get_outcome ?w2" "put_fault w' = put_fault ?w2" "calls w' = calls ?w2"
      "set (logged ?w2) \<subseteq> set (logged w')"
      "\<forall>r \<in> set rs. \<not> fst (snd r) \<longrightarrow> (WARNING, FailedToTag (fst r) (snd (snd r))) \<in> set (logged w')"
    by blast
  have t: "tally (r # rs) c = tally rs ?c" by (simp add: tally_def r)
  have l1: "set (logged w) \<subseteq> set (logged ?w2)" by auto
  have l2: "\<not> s \<Longrightarrow> (WARNING, FailedToTag k m) \<in> set (logged ?w2)" by auto
  show ?case
    unfolding step t
    using w' l1 l2 by (intro exI[of _ w']) (auto simp: r)
qed

lemma tally_failed:
  "failed (tally rs c) = failed c + length (filter (\<lambda>r. \<not> fst (snd r)) rs)"
  by (induction rs arbitrary: c) (auto simp: tally_def count_result_def)


lemma contains_already: "contains ''already exists'' ''Tag already exists''"
  by (simp add: is_prefix_def)

lemma tally_already:
  "tally (map (\<lambda>k. (k, True, ''Tag already exists'')) keys) c =
     c\<lparr>already_tagged := already_tagged c + length keys\<rparr>"
proof -
  have one: "count_result True ''Tag already exists'' c' = c'\<lparr>already_tagged := already_tagged c' + 1\<rparr>" for c'
    by (simp only: count_result_def contains_already if_True)
  show ?thesis
    by (induction keys arbitrary: c) (simp_all add: tally_def one)
qed

lemma tagging_phase_all_tagged:
  assumes "\<forall>k \<in> set keys. get_outcome w (b, k) = None \<and> has_tag w b k tag_key"
    and "batch_size \<noteq> 0"
  shows "\<exists>w'. tagging_phase w b keys tag_key tag_value batch_size =
        (Inr \<lparr>successful = 0, failed = 0, already_tagged = length keys\<rparr>, w') \<and>
      objects w' = objects w \<and> calls w' = calls w @ map (GetObjectTagging b) keys"
proof -
  let ?rs = "map (\<lambda>k. (k, True, ''Tag already exists'')) keys"
  let ?w1 = "w\<lparr>calls := calls w @ map (GetObjectTagging b) keys\<rparr>"
  let ?c0 = "\<lparr>successful = 0, failed = 0, already_tagged = 0\<rparr>"
  from process_results_ok[OF assms(2), of "length keys" 1 ?rs ?c0 ?w1]
  obtain w' where w': "process_results batch_size (length keys) 1 ?rs ?c0 ?w1 = (Inr (tally ?rs ?c0), w')"
    "objects w' = objects ?w1" "calls w' = calls ?w1" by blast
  show ?thesis
    using w' tag_all_already[OF assms(1), of tag_value]
    unfolding tagging_phase_def
    by (intro exI[of _ w']) (simp only: prod.case length_map, simp add: tally_already)
qed

text \<open>
  C2, as the claim states it, fails. Of three matched keys the first names an object
  without the tag, the second names no object, and put-tags is denied on the third. The
  first run tags the first object and fails on the other two; the second run over the
  same keys fails on them again, so it does not report every object as already tagged.
\<close>

theorem second_run_repeats_failures_counterexample:
  "(let w = quiet_world\<lparr>
         objects := [(''svodvideos'', ''TvShows/A/e1.mp4'') \<mapsto> [],
                     (''svodvideos'', ''TvShows/A/e3.mp4'') \<mapsto> []],
         put_fault := [(''svodvideos'', ''TvShows/A/e3.mp4'') \<mapsto>
                         ClientError ''AccessDenied'' ''Access Denied'']\<rparr>;
        keys = [''TvShows/A/e1.mp4'', ''TvShows/A/e2.mp4'', ''TvShows/A/e3.mp4''];
        run1 = tagging_phase w ''svodvideos'' keys ''PERMANENT_DELETE'' ''CONFIRMED'' 100;
        run2 = tagging_phase (snd run1) ''svodvideos'' keys ''PERMANENT_DELETE'' ''CONFIRMED'' 100
    in fst run1 = Inr \<lparr>successful = 1, failed = 2, already_tagged = 0\<rparr>
       \<and> fst run2 = Inr \<lparr>successful = 0, failed = 2, already_tagged = 1\<rparr>)"
  by (simp add: quiet_world_def tagging_phase_def tag_single_object_def tag_with_existing_def
      get_object_tagging_def put_object_tagging_def count_result_def is_prefix_def emit_def
      no_such_key_def Let_def split: prod.splits)

text \<open>
  C2, amended. First, whenever get-tags returns a tag set that holds the target key,
  \<open>tag_single_object\<close> reports success with "Tag already exists" and its only remote
  call is the get-tags call. Second, when every key of the matched list names an
  existing object, no tagging call on it is made to fail and the batch size is not
  zero, a second run of the tagging phase over the same keys, after a first one, counts
  every key as already tagged and none as newly tagged or failed, issues get-tags calls
  only, and leaves every stored tag set as the first run left it.
\<close>

theorem tagging_phase_idempotent:
  "(fst (get_object_tagging w b k) = Inr (Some ts) \<and> tag_key \<in> Key ` set ts \<longrightarrow>
      tag_single_object w b k tag_key tag_value =
        ((k, True, ''Tag already exists''), w\<lparr>calls := calls w @ [GetObjectTagging b k]\<rparr>))
   \<and> ((\<forall>k \<in> set keys. get_outcome w (b, k) = None \<and> put_fault w (b, k) = None \<and>
                         objects w (b, k) \<noteq> None) \<and> batch_size \<noteq> 0 \<longrightarrow>
       (case tagging_phase w b keys tag_key tag_value batch_size of
          (r1, w1) \<Rightarrow>
            (case tagging_phase w1 b keys tag_key tag_value batch_size of
               (r2, w2) \<Rightarrow>
                  r2 = Inr \<lparr>successful = 0, failed = 0, already_tagged = length keys\<rparr> \<and>
                  objects w2 = objects w1 \<and>
                  calls w2 = calls w1 @ map (GetObjectTagging b) keys)))"
proof (intro conjI impI)
  assume a: "fst (get_object_tagging w b k) = Inr (Some ts) \<and> tag_key \<in> Key ` set ts"
  then have "list_ex (\<lambda>t. Key t = tag_key) ts" by (auto simp: list_ex_iff)
  with a show "tag_single_object w b k tag_key tag_value =
        ((k, True, ''Tag already exists''), w\<lparr>calls := calls w @ [GetObjectTagging b k]\<rparr>)"
    by (simp add: tag_single_object_already)
next
  assume a: "(\<forall>k \<in> set keys. get_outcome w (b, k) = None \<and> put_fault w (b, k) = None \<and>
                         objects w (b, k) \<noteq> None) \<and> batch_size \<noteq> 0"
  obtain rs wt where ta: "tag_all w b keys tag_key tag_value = (rs, wt)"
    by (cases "tag_all w b keys tag_key tag_value")
  from process_results_ok[of batch_size "length keys" 1 rs "\<lparr>successful = 0, failed = 0, already_tagged = 0\<rparr>" wt] a
  obtain w1 where w1: "process_results batch_size (length keys) 1 rs
      \<lparr>successful = 0, failed = 0, already_tagged = 0\<rparr> wt =
        (Inr (tally rs \<lparr>successful = 0, failed = 0, already_tagged = 0\<rparr>), w1)"
    "objects w1 = objects wt" "get_outcome w1 = get_outcome wt" by blast
  have first: "tagging_phase w b keys tag_key tag_value batch_size =
      (Inr (tally rs \<lparr>successful = 0, failed = 0, already_tagged = 0\<rparr>), w1)"
    unfolding tagging_phase_def ta by (simp only: prod.case w1(1))
  have "\<forall>k \<in> set keys. healthy w b k" using a by (simp add: healthy_def)
  then have "\<forall>k \<in> set keys. get_outcome wt (b, k) = None \<and> has_tag wt b k tag_key"
    using tag_all_frame[OF ta] a by auto
  then have "\<forall>k \<in> set keys. get_outcome w1 (b, k) = None \<and> has_tag w1 b k tag_key"
    using w1(2,3) by (simp add: has_tag_def)
  from tagging_phase_all_tagged[OF this, of batch_size tag_value] a
  obtain w2 where "tagging_phase w1 b keys tag_key tag_value batch_size =
        (Inr \<lparr>successful = 0, failed = 0, already_tagged = length keys\<rparr>, w2)"
      "objects w2 = objects w1" "calls w2 = calls w1 @ map (GetObjectTagging b) keys" by blast
  then show "case tagging_phase w b keys tag_key tag_value batch_size of
          (r1, w1) \<Rightarrow>
            (case tagging_phase w1 b keys tag_key tag_value batch_size of
               (r2, w2) \<Rightarrow>
                  r2 = Inr \<lparr>successful = 0, failed = 0, already_tagged = length keys\<rparr> \<and>
                  objects w2 = objects w1 \<and>
                  calls w2 = calls w1 @ map (GetObjectTagging b) keys)"
    by (simp add: first)
qed

theorem tagging_phase_idempotent_witness:
  "(let w = quiet_world\<lparr>objects :=
              [(''svodvideos'', ''TvShows/A/e1.mp4'') \<mapsto> [\<lparr>Key = ''PERMANENT_DELETE'', Value = ''CONFIRMED''\<rparr>],
               (''svodvideos'', ''TvShows/A/e2.mp4'') \<mapsto> [\<lparr>Key = ''owner'', Value = ''media''\<rparr>]]\<rparr>;
        keys = [''TvShows/A/e1.mp4'', ''TvShows/A/e2.mp4''];
        run1 = tagging_phase w ''svodvideos'' keys ''PERMANENT_DELETE'' ''CONFIRMED'' 100;
        run2 = tagging_phase (snd run1) ''svodvideos'' keys ''PERMANENT_DELETE'' ''CONFIRMED'' 100
    in fst (get_object_tagging w ''svodvideos'' ''TvShows/A/e1.mp4'') =
          Inr (Some [\<lparr>Key = ''PERMANENT_DELETE'', Value = ''CONFIRMED''\<rparr>])
       \<and> fst (tag_single_object w ''svodvideos'' ''TvShows/A/e1.mp4'' ''PERMANENT_DELETE'' ''CONFIRMED'') =
            (''TvShows/A/e1.mp4'', True, ''Tag already exists'')
       \<and> (\<forall>k \<in> set keys. get_outcome w (''svodvideos'', k) = None \<and> put_fault w (''svodvideos'', k) = None
              \<and> objects w (''svodvideos'', k) \<noteq> None)
       \<and> fst run1 = Inr \<lparr>successful = 1, failed = 0, already_tagged = 1\<rparr>
       \<and> fst run2 = Inr \<lparr>successful = 0, failed = 0, already_tagged = 2\<rparr>
       \<and> objects (snd run2) = objects (snd run1))"
  using tagging_phase_idempotent[
      of "quiet_world\<lparr>objects :=
              [(''svodvideos'', ''TvShows/A/e1.mp4'') \<mapsto> [\<lparr>Key = ''PERMANENT_DELETE'', Value = ''CONFIRMED''\<rparr>],
               (''svodvideos'', ''TvShows/A/e2.mp4'') \<mapsto> [\<lparr>Key = ''owner'', Value = ''media''\<rparr>]]\<rparr>"
         "''svodvideos''" "''TvShows/A/e1.mp4''"
         "[\<lparr>Key = ''PERMANENT_DELETE'', Value = ''CONFIRMED''\<rparr>]" "''PERMANENT_DELETE''" "''CONFIRMED''"
         "[''TvShows/A/e1.mp4'', ''TvShows/A/e2.mp4'']" 100]
  by (simp add: quiet_world_def tagging_phase_def tag_single_object_def tag_with_existing_def
      get_object_tagging_def put_object_tagging_def count_result_def is_prefix_def emit_def Let_def
      split: prod.splits)

section \<open>Discovery: what each group contributes\<close>

lemma re_compile_empty_group:
  "re_compile (full_pattern location []) =
     Some (seq_of ([Bol] @ map Lit location @ [Group Epsilon, Eol]))"
proof -
  have "parse_tokens ([TCaret] @ map TLit location @ [TLParen] @ join [TBar] (map alt_tokens []) @ [TRParen, TDollar]) [([], [])]
      = Some [([], Eol # Group Epsilon # rev (map Lit location) @ [Bol])]"
    by (simp add: parse_tokens_append parse_lits close_frame_def)
  then have "re_compile (full_pattern location []) =
      Some (close_frame ([], Eol # Group Epsilon # rev (map Lit location) @ [Bol]))"
    by (simp only: re_compile_def tokenize_full_pattern option.case list.case)
  then show ?thesis by (simp add: close_frame_def)
qed

lemma re_compile_total: "\<exists>r. re_compile (full_pattern location fns) = Some r"
  by (cases "fns = []") (auto simp: re_compile_empty_group re_compile_full_pattern)

lemma find_objects_for_location_eq:
  "find_objects_for_location w b g =
     (group_matches w b g,
      w\<lparr>calls := calls w @ [ListObjectsV2 b (group_prefix g)],
        logged := logged w @ group_log w b g\<rparr>)"
proof -
  obtain location fns where g: "g = (location, fns)" by (cases g)
  obtain r where r: "re_compile (full_pattern (''TvShows/'' @ location @ ''/'') fns) = Some r"
    using re_compile_total by blast
  obtain pages failure where l: "listing w (b, ''TvShows/'' @ location @ ''/'') = (pages, failure)"
    by (cases "listing w (b, ''TvShows/'' @ location @ ''/'')")
  show ?thesis
  proof (cases failure)
    case None
    then show ?thesis
      using r l
      by (simp add: g find_objects_for_location_def list_matching_objects_def paginate_def
          group_matches_def received_matches_def group_log_def group_prefix_def emit_def Let_def)
  next
    case (Some e)
    then show ?thesis
      using r l
      by (cases e)
         (simp_all add: g find_objects_for_location_def list_matching_objects_def paginate_def
          group_matches_def received_matches_def group_log_def group_prefix_def emit_def Let_def)
  qed
qed

lemma group_facts_listing:
  assumes "listing w' = listing w"
  shows "received_matches w' b g = received_matches w b g"
    and "group_matches w' b g = group_matches w b g"
    and "group_log w' b g = group_log w b g"
  unfolding received_matches_def group_matches_def group_log_def assms by (rule refl)+

lemma find_all_eq:
  "find_all w b gs acc =
     (foldl set_update acc (map (group_matches w b) gs),
      w\<lparr>calls := calls w @ map (\<lambda>g. ListObjectsV2 b (group_prefix g)) gs,
        logged := logged w @ concat (map (group_log w b) gs)\<rparr>)"
proof (induction gs arbitrary: w acc)
  case Nil
  show ?case by simp
next
  case (Cons g gs)
  let ?w1 = "w\<lparr>calls := calls w @ [ListObjectsV2 b (group_prefix g)],
        logged := logged w @ group_log w b g\<rparr>"
  have l: "listing ?w1 = listing w" by simp
  have "find_all w b (g # gs) acc = find_all ?w1 b gs (set_update acc (group_matches w b g))"
    by (simp add: find_objects_for_location_eq)
  also have "\<dots> = (foldl set_update (set_update acc (group_matches w b g)) (map (group_matches ?w1 b) gs),
      ?w1\<lparr>calls := calls ?w1 @ map (\<lambda>g. ListObjectsV2 b (group_prefix g)) gs,
        logged := logged ?w1 @ concat (map (group_log ?w1 b) gs)\<rparr>)"
    by (rule Cons.IH)
  also have "\<dots> = (foldl set_update acc (map (group_matches w b) (g # gs)),
      w\<lparr>calls := calls w @ map (\<lambda>g. ListObjectsV2 b (group_prefix g)) (g # gs),
        logged := logged w @ concat (map (group_log w b) (g # gs))\<rparr>)"
    unfolding group_facts_listing[OF l] by simp
  finally show ?case .
qed


lemma distinct_set_update: "distinct acc \<Longrightarrow> distinct (set_update acc ms)"
  by (auto simp: set_update_def)


lemma distinct_foldl_set_update:
  "distinct acc \<Longrightarrow> distinct (foldl set_update acc xs)"
  by (induction xs arbitrary: acc) (auto simp: distinct_set_update)


section \<open>The run as a whole\<close>

lemma missing_iff:
  "missing w b k \<longleftrightarrow>
     (case get_outcome w (b, k) of
        Some r \<Rightarrow> (\<exists>m. r = Inl (ClientError ''NoSuchKey'' m))
      | None \<Rightarrow> objects w (b, k) = None)"
  by (auto simp: missing_def get_object_tagging_def no_such_key_def Let_def split: option.splits)

lemma tag_single_object_missing:
  assumes "missing w b k"
  shows "tag_single_object w b k tag_key tag_value =
     ((k, False, ''Object not found''), w\<lparr>calls := calls w @ [GetObjectTagging b k]\<rparr>)"
proof -
  obtain m where m: "fst (get_object_tagging w b k) = Inl (ClientError ''NoSuchKey'' m)"
    using assms by (auto simp: missing_def)
  have "get_object_tagging w b k =
      (Inl (ClientError ''NoSuchKey'' m), w\<lparr>calls := calls w @ [GetObjectTagging b k]\<rparr>)"
    using m get_object_tagging_world[of w b k] by (cases "get_object_tagging w b k") simp
  then show ?thesis by (simp add: tag_single_object_def)
qed

lemma missing_same:
  assumes "get_outcome w' = get_outcome w" and "\<And>x. objects w' x = None \<longleftrightarrow> objects w x = None"
  shows "missing w' b k \<longleftrightarrow> missing w b k"
  unfolding missing_iff using assms by (simp split: option.splits)

lemma missing_preserved:
  assumes "tag_single_object w b' k' tag_key tag_value = (r, w')"
  shows "missing w' b k \<longleftrightarrow> missing w b k"
  by (rule missing_same) (use tag_single_object_frame(3)[OF assms] exists_preserved[OF assms] in auto)

lemma tag_all_missing:
  assumes "tag_all w b keys tag_key tag_value = (rs, w')"
  shows "(\<forall>k \<in> set keys. missing w b k \<longrightarrow> (k, False, ''Object not found'') \<in> set rs) \<and>
     length (filter (missing w b) keys) \<le> length (filter (\<lambda>r. \<not> fst (snd r)) rs) \<and>
     (\<forall>b'' k''. missing w b'' k'' \<longrightarrow> missing w' b'' k'')"
  using assms
proof (induction keys arbitrary: w rs)
  case Nil
  then show ?case by simp
next
  case (Cons k keys)
  obtain r w1 where one: "tag_single_object w b k tag_key tag_value = (r, w1)"
    by (cases "tag_single_object w b k tag_key tag_value")
  obtain rs' where rest: "tag_all w1 b keys tag_key tag_value = (rs', w')" and rs: "rs = r # rs'"
    using Cons.prems one by (auto split: prod.splits)
  note IH = Cons.IH[OF rest]
  have keep: "missing w b'' k'' \<Longrightarrow> missing w1 b'' k''" for b'' k''
    using missing_preserved[OF one] by simp
  have same: "missing w1 b'' k'' \<Longrightarrow> missing w b'' k''" for b'' k''
    using missing_preserved[OF one] by simp
  have filt: "filter (missing w1 b) keys = filter (missing w b) keys"
    using keep same by (intro filter_cong) auto
  have head: "missing w b k \<Longrightarrow> r = (k, False, ''Object not found'')"
    using one tag_single_object_missing[of w b k tag_key tag_value] by simp
  have "\<forall>k'' \<in> set (k # keys). missing w b k'' \<longrightarrow> (k'', False, ''Object not found'') \<in> set rs"
    using head keep IH rs by auto
  moreover have "length (filter (missing w b) (k # keys)) \<le> length (filter (\<lambda>r. \<not> fst (snd r)) rs)"
    using head IH filt rs by (cases "missing w b k") auto
  moreover have "\<forall>b'' k''. missing w b'' k'' \<longrightarrow> missing w' b'' k''"
    using keep IH by blast
  ultimately show ?case by blast
qed

lemma read_groups_frame:
  assumes "read_groups w path op ofn = (r, w1)"
  shows "files w1 = files w" "objects w1 = objects w" "listing w1 = listing w"
    "get_outcome w1 = get_outcome w" "put_fault w1 = put_fault w" "calls w1 = calls w"
  using assms by (auto simp: read_groups_def Let_def split: sum.splits if_splits)

lemma run_completed:
  assumes rg: "read_groups w path op ofn = (Inr (n, groups), w1)"
    and fa: "find_all w1 b groups [] = (matching, w2)"
    and ta: "tag_all (emit INFO Phase2Start (emit INFO (Phase1Complete (length matching)) w2))
               b matching tag_key tag_value = (rs, w5)"
    and ne: "matching \<noteq> []"
    and cfg: "0 < max_workers" "0 < max_list_workers" "batch_size \<noteq> 0"
  shows "\<exists>w6. tag_objects_by_pattern w path b op ofn tag_key tag_value max_workers batch_size max_list_workers =
      (Completed (tally rs \<lparr>successful = 0, failed = 0, already_tagged = 0\<rparr>),
       emit_all INFO (summary n (length groups) matching
          (tally rs \<lparr>successful = 0, failed = 0, already_tagged = 0\<rparr>)) w6) \<and>
      objects w6 = objects w5 \<and> calls w6 = calls w5 \<and> set (logged w5) \<subseteq> set (logged w6) \<and>
      (\<forall>r \<in> set rs. \<not> fst (snd r) \<longrightarrow> (WARNING, FailedToTag (fst r) (snd (snd r))) \<in> set (logged w6))"
proof -
  let ?c0 = "\<lparr>successful = 0, failed = 0, already_tagged = 0\<rparr>"
  from process_results_ok[OF cfg(3), of "length matching" 1 rs ?c0 w5]
  obtain w6 where w6: "process_results batch_size (length matching) 1 rs ?c0 w5 = (Inr (tally rs ?c0), w6)"
    "objects w6 = objects w5" "calls w6 = calls w5" "set (logged w5) \<subseteq> set (logged w6)"
    "\<forall>r \<in> set rs. \<not> fst (snd r) \<longrightarrow> (WARNING, FailedToTag (fst r) (snd (snd r))) \<in> set (logged w6)"
    by blast
  have tp: "tagging_phase (emit INFO Phase2Start (emit INFO (Phase1Complete (length matching)) w2))
               b matching tag_key tag_value batch_size = (Inr (tally rs ?c0), w6)"
    unfolding tagging_phase_def ta by (simp only: prod.case w6(1))
  have "tag_objects_by_pattern w path b op ofn tag_key tag_value max_workers batch_size max_list_workers =
      (Completed (tally rs ?c0), emit_all INFO (summary n (length groups) matching (tally rs ?c0)) w6)"
    unfolding tag_objects_by_pattern_def rg using cfg ne
    by (simp only: prod.case sum.case fa Let_def if_False not_le[symmetric] tp)
  then show ?thesis using w6 by blast
qed

lemma find_all_frame:
  assumes "find_all w1 b groups acc = (matching, w2)"
  shows "objects w2 = objects w1" "get_outcome w2 = get_outcome w1" "put_fault w2 = put_fault w1"
    "files w2 = files w1" "listing w2 = listing w1"
    "calls w2 = calls w1 @ map (\<lambda>g. ListObjectsV2 b (group_prefix g)) groups"
    "logged w2 = logged w1 @ concat (map (group_log w1 b) groups)"
    "matching = foldl set_update acc (map (group_matches w1 b) groups)"
  using assms unfolding find_all_eq by auto

lemma summary_failed: "SummaryFailed (failed c) \<in> set (summary n l ms c)"
  by (simp add: summary_def)

lemma logged_emit_all: "logged (emit_all l ms w) = logged w @ map (Pair l) ms"
  by (simp add: emit_all_def)

lemma example_groups:
  "fst (read_groups example_world ''delete_data/Videos-Test.csv'' ''location_folder'' ''location_file'') =
     Inr (1, [(''ShowA/S01'', [''ep01''])])"
  by (simp add: read_groups_def example_world_def quiet_world_def example_frame_def dropna_def
      location_groups_def row_location_def row_filename_def str_cell_def strip_slashes_def Let_def)

lemma example_matching:
  "fst (find_all (snd (read_groups example_world ''delete_data/Videos-Test.csv'' ''location_folder'' ''location_file''))
       ''svodvideos'' [(''ShowA/S01'', [''ep01''])] []) =
     [''TvShows/ShowA/S01/ep01_1080p.mp4'', ''TvShows/ShowA/S01/ep01_720p.mp4'']"
  by code_simp

lemma example_run:
  "fst (tag_objects_by_pattern example_world ''delete_data/Videos-Test.csv'' ''svodvideos''
          ''location_folder'' ''location_file'' ''PERMANENT_DELETE'' ''CONFIRMED'' 50 100 10) =
     Completed \<lparr>successful = 1, failed = 1, already_tagged = 0\<rparr>"
  by code_simp

lemma group_log_not_summary:
  "e \<in> set (group_log w b g) \<Longrightarrow> snd e \<notin> set (summary n l ms c)"
  by (auto simp: group_log_def summary_def Let_def split: option.splits exn.splits if_splits)

lemma read_groups_logged:
  assumes "read_groups w path op ofn = (Inr (n, groups), w1)"
  shows "logged w1 = logged w @ [(INFO, ReadingCsv path), (INFO, ProcessingRows n),
           (INFO, FoundUniqueLocations (length groups)), (INFO, Phase1Start)]"
  using assms by (auto simp: read_groups_def Let_def split: sum.splits if_splits)

section \<open>Objects that are not there\<close>

text \<open>
  C7, as the claim states it, fails. There is no object under the key, and get-tags
  fails with a \<^verbatim>\<open>ClientError\<close> whose code is not \<^verbatim>\<open>NoSuchKey\<close> (here \<^verbatim>\<open>AccessDenied\<close>, which
  S3 answers for a missing object to a caller without the right to list the bucket).
  The test at line 107 is on the code of the get-tags error alone, so the attempt goes
  on to put-tags, whose \<^verbatim>\<open>NoSuchKey\<close> comes back through the handler at line 131: the
  outcome is a failure, but its reason has the form of every other remote error and is
  not "Object not found".
\<close>

theorem not_found_behind_other_error_counterexample:
  "(let w = quiet_world\<lparr>get_outcome := [(''svodvideos'', ''TvShows/A/e1.mp4'') \<mapsto>
                           Inl (ClientError ''AccessDenied'' ''Access Denied'')]\<rparr>;
        r = tag_single_object w ''svodvideos'' ''TvShows/A/e1.mp4'' ''PERMANENT_DELETE'' ''CONFIRMED''
    in objects w (''svodvideos'', ''TvShows/A/e1.mp4'') = None
       \<and> fst r = (''TvShows/A/e1.mp4'', False,
                  ''AWS Error: NoSuchKey - The specified key does not exist.'')
       \<and> snd (snd (fst r)) \<noteq> ''Object not found'')"
  by (simp add: quiet_world_def tag_single_object_def tag_with_existing_def
      get_object_tagging_def put_object_tagging_def no_such_key_def Let_def)

text \<open>
  C7, amended. Whenever get-tags reports that there is no such object (a \<^verbatim>\<open>ClientError\<close>
  with the code \<^verbatim>\<open>NoSuchKey\<close>), as it does for a key without an object when the call is
  not made to fail otherwise, \<open>tag_single_object\<close> returns failure with the message
  "Object not found", after the get-tags call alone. That message differs from every
  message built for another remote error ("AWS Error: code - message") and for an
  unexpected exception. When such a key is among the matched keys of a run with
  positive worker counts and a batch size other than zero, the run still completes with
  a summary: every such key is counted in \<open>failed\<close> and a warning is logged for it.
\<close>

theorem not_found_reported_and_counted:
  "(fst (get_object_tagging w b k) = Inl (ClientError ''NoSuchKey'' m) \<longrightarrow>
      tag_single_object w b k tag_key tag_value =
        ((k, False, ''Object not found''), w\<lparr>calls := calls w @ [GetObjectTagging b k]\<rparr>))
   \<and> (objects w (b, k) = None \<and> get_outcome w (b, k) = None \<longrightarrow>
        fst (get_object_tagging w b k) =
          Inl (ClientError ''NoSuchKey'' ''The specified key does not exist.''))
   \<and> ''Object not found'' \<noteq> ''AWS Error: '' @ code @ '' - '' @ message
   \<and> ''Object not found'' \<noteq> ''Unexpected error: '' @ s
   \<and> (fst (read_groups w path op ofn) = Inr (n, groups)
      \<and> k \<in> set (fst (find_all (snd (read_groups w path op ofn)) b groups []))
      \<and> fst (get_object_tagging w b k) = Inl (ClientError ''NoSuchKey'' m)
      \<and> 0 < max_workers \<and> 0 < max_list_workers \<and> batch_size \<noteq> 0 \<longrightarrow>
      (\<exists>c. fst (tag_objects_by_pattern w path b op ofn tag_key tag_value
                   max_workers batch_size max_list_workers) = Completed c
         \<and> length (filter (\<lambda>k'. \<exists>m'. fst (get_object_tagging w b k') =
                                         Inl (ClientError ''NoSuchKey'' m'))
                     (fst (find_all (snd (read_groups w path op ofn)) b groups []))) \<le> failed c
         \<and> (WARNING, FailedToTag k ''Object not found'') \<in>
              set (logged (snd (tag_objects_by_pattern w path b op ofn tag_key tag_value
                   max_workers batch_size max_list_workers)))
         \<and> (INFO, SummaryFailed (failed c)) \<in>
              set (logged (snd (tag_objects_by_pattern w path b op ofn tag_key tag_value
                   max_workers batch_size max_list_workers)))))"
proof (intro conjI impI)
  assume "fst (get_object_tagging w b k) = Inl (ClientError ''NoSuchKey'' m)"
  then have "missing w b k" by (auto simp: missing_def)
  then show "tag_single_object w b k tag_key tag_value =
        ((k, False, ''Object not found''), w\<lparr>calls := calls w @ [GetObjectTagging b k]\<rparr>)"
    by (rule tag_single_object_missing)
next
  assume "objects w (b, k) = None \<and> get_outcome w (b, k) = None"
  then show "fst (get_object_tagging w b k) =
          Inl (ClientError ''NoSuchKey'' ''The specified key does not exist.'')"
    by (simp add: get_object_tagging_def no_such_key_def Let_def)
next
  show "''Object not found'' \<noteq> ''AWS Error: '' @ code @ '' - '' @ message" by simp
  show "''Object not found'' \<noteq> ''Unexpected error: '' @ s" by simp
next
  assume a: "fst (read_groups w path op ofn) = Inr (n, groups)
      \<and> k \<in> set (fst (find_all (snd (read_groups w path op ofn)) b groups []))
      \<and> fst (get_object_tagging w b k) = Inl (ClientError ''NoSuchKey'' m)
      \<and> 0 < max_workers \<and> 0 < max_list_workers \<and> batch_size \<noteq> 0"
  obtain w1 where rg: "read_groups w path op ofn = (Inr (n, groups), w1)"
    using a by (cases "read_groups w path op ofn") auto
  obtain matching w2 where fa: "find_all w1 b groups [] = (matching, w2)"
    by (cases "find_all w1 b groups []")
  let ?w4 = "emit INFO Phase2Start (emit INFO (Phase1Complete (length matching)) w2)"
  obtain rs w5 where ta: "tag_all ?w4 b matching tag_key tag_value = (rs, w5)"
    by (cases "tag_all ?w4 b matching tag_key tag_value")
  have k: "k \<in> set matching" using a rg fa by simp
  then have ne: "matching \<noteq> []" by auto
  let ?c = "tally rs \<lparr>successful = 0, failed = 0, already_tagged = 0\<rparr>"
  let ?run = "tag_objects_by_pattern w path b op ofn tag_key tag_value max_workers batch_size max_list_workers"
  from run_completed[OF rg fa ta ne] a
  obtain w6 where run: "?run = (Completed ?c, emit_all INFO (summary n (length groups) matching ?c) w6)"
    and warn: "\<forall>r \<in> set rs. \<not> fst (snd r) \<longrightarrow> (WARNING, FailedToTag (fst r) (snd (snd r))) \<in> set (logged w6)"
    by blast
  have same: "objects w2 = objects w" "get_outcome w2 = get_outcome w"
    using find_all_frame(1,2)[OF fa] read_groups_frame(2,4)[OF rg] by simp_all
  have m: "missing ?w4 b k' \<longleftrightarrow> missing w b k'" for k'
    by (rule missing_same) (simp_all add: same)
  have mk: "missing w b k" using a by (auto simp: missing_def)
  note tm = tag_all_missing[OF ta]
  have "(k, False, ''Object not found'') \<in> set rs" using tm k m mk by blast
  then have w: "(WARNING, FailedToTag k ''Object not found'') \<in> set (logged w6)"
    using warn by force
  have cnt: "length (filter (\<lambda>k'. \<exists>m'. fst (get_object_tagging w b k') =
                                         Inl (ClientError ''NoSuchKey'' m')) matching) \<le> failed ?c"
  proof -
    have "missing ?w4 b = (\<lambda>k'. \<exists>m'. fst (get_object_tagging w b k') =
                                         Inl (ClientError ''NoSuchKey'' m'))"
      using m by (intro ext) (simp add: missing_def)
    then show ?thesis using tm by (simp add: tally_failed)
  qed
  show "\<exists>c. fst ?run = Completed c
         \<and> length (filter (\<lambda>k'. \<exists>m'. fst (get_object_tagging w b k') =
                                         Inl (ClientError ''NoSuchKey'' m'))
                     (fst (find_all (snd (read_groups w path op ofn)) b groups []))) \<le> failed c
         \<and> (WARNING, FailedToTag k ''Object not found'') \<in> set (logged (snd ?run))
         \<and> (INFO, SummaryFailed (failed c)) \<in> set (logged (snd ?run))"
    using cnt w summary_failed[of ?c n "length groups" matching]
    by (intro exI[of _ ?c]) (simp add: run rg fa logged_emit_all)
qed

theorem not_found_reported_and_counted_witness:
  "fst (get_object_tagging example_world ''svodvideos'' ''TvShows/ShowA/S01/ep01_720p.mp4'') =
      Inl (ClientError ''NoSuchKey'' ''The specified key does not exist.'')
   \<and> fst (read_groups example_world ''delete_data/Videos-Test.csv'' ''location_folder'' ''location_file'') =
        Inr (1, [(''ShowA/S01'', [''ep01''])])
   \<and> ''TvShows/ShowA/S01/ep01_720p.mp4'' \<in> set (fst (find_all
         (snd (read_groups example_world ''delete_data/Videos-Test.csv'' ''location_folder'' ''location_file''))
         ''svodvideos'' [(''ShowA/S01'', [''ep01''])] []))
   \<and> (0::int) < 50 \<and> (0::int) < 10 \<and> (100::int) \<noteq> 0
   \<and> fst (tag_single_object example_world ''svodvideos'' ''TvShows/ShowA/S01/ep01_720p.mp4''
             ''PERMANENT_DELETE'' ''CONFIRMED'') =
        (''TvShows/ShowA/S01/ep01_720p.mp4'', False, ''Object not found'')
   \<and> (\<exists>c. fst (tag_objects_by_pattern example_world ''delete_data/Videos-Test.csv'' ''svodvideos''
                 ''location_folder'' ''location_file'' ''PERMANENT_DELETE'' ''CONFIRMED'' 50 100 10) = Completed c
          \<and> 1 \<le> failed c
          \<and> (WARNING, FailedToTag ''TvShows/ShowA/S01/ep01_720p.mp4'' ''Object not found'') \<in>
               set (logged (snd (tag_objects_by_pattern example_world ''delete_data/Videos-Test.csv''
                 ''svodvideos'' ''location_folder'' ''location_file'' ''PERMANENT_DELETE'' ''CONFIRMED'' 50 100 10))))"
proof -
  have h1: "fst (get_object_tagging example_world ''svodvideos'' ''TvShows/ShowA/S01/ep01_720p.mp4'') =
      Inl (ClientError ''NoSuchKey'' ''The specified key does not exist.'')"
    by (simp add: example_world_def quiet_world_def get_object_tagging_def no_such_key_def Let_def)
  have h3: "fst (read_groups example_world ''delete_data/Videos-Test.csv'' ''location_folder'' ''location_file'') =
        Inr (1, [(''ShowA/S01'', [''ep01''])])"
    by code_simp
  have h4: "fst (find_all
         (snd (read_groups example_world ''delete_data/Videos-Test.csv'' ''location_folder'' ''location_file''))
         ''svodvideos'' [(''ShowA/S01'', [''ep01''])] []) =
       [''TvShows/ShowA/S01/ep01_1080p.mp4'', ''TvShows/ShowA/S01/ep01_720p.mp4'']"
    by code_simp
  note t = not_found_reported_and_counted[where w = example_world and b = "''svodvideos''"
      and k = "''TvShows/ShowA/S01/ep01_720p.mp4''" and m = "''The specified key does not exist.''"
      and tag_key = "''PERMANENT_DELETE''" and tag_value = "''CONFIRMED''"
      and code = "[]" and message = "[]" and s = "[]"
      and path = "''delete_data/Videos-Test.csv''" and op = "''location_folder''"
      and ofn = "''location_file''" and n = 1 and groups = "[(''ShowA/S01'', [''ep01''])]"
      and max_workers = 50 and max_list_workers = 10 and batch_size = 100]
  have h5: "filter (\<lambda>k'. \<exists>m'. fst (get_object_tagging example_world ''svodvideos'' k') =
                                Inl (ClientError ''NoSuchKey'' m'))
              [''TvShows/ShowA/S01/ep01_1080p.mp4'', ''TvShows/ShowA/S01/ep01_720p.mp4''] =
            [''TvShows/ShowA/S01/ep01_720p.mp4'']"
    by (simp add: example_world_def quiet_world_def get_object_tagging_def no_such_key_def Let_def)
  show ?thesis
    using t h1 h3 unfolding h4 h5 by auto
qed

section \<open>A run that finds nothing\<close>

text \<open>
  C10. When the table is read, the listing pool can be built and discovery ends with
  an empty match set, the run returns at line 235: it makes no remote call beyond the
  one listing per group, so no get-tags or put-tags call, the stored tag sets are
  unchanged, and the log ends with the count of zero and the warning; none of the new
  records is a record of the summary.
\<close>

theorem empty_discovery_returns_before_tagging:
  assumes "fst (read_groups w path op ofn) = Inr (n, groups)"
    and "0 < max_list_workers"
    and "fst (find_all (snd (read_groups w path op ofn)) b groups []) = []"
  shows "fst (tag_objects_by_pattern w path b op ofn tag_key tag_value
                max_workers batch_size max_list_workers) = NoMatches
     \<and> objects (snd (tag_objects_by_pattern w path b op ofn tag_key tag_value
                max_workers batch_size max_list_workers)) = objects w
     \<and> calls (snd (tag_objects_by_pattern w path b op ofn tag_key tag_value
                max_workers batch_size max_list_workers)) =
          calls w @ map (\<lambda>g. ListObjectsV2 b (''TvShows/'' @ fst g @ ''/'')) groups
     \<and> (\<exists>new. logged (snd (tag_objects_by_pattern w path b op ofn tag_key tag_value
                max_workers batch_size max_list_workers)) =
            logged w @ new @ [(INFO, Phase1Complete 0), (WARNING, NoMatchingObjects)]
          \<and> (\<forall>e \<in> set (new @ [(INFO, Phase1Complete 0), (WARNING, NoMatchingObjects)]).
                \<forall>n' l ms c. snd e \<notin> set (summary n' l ms c)))"
proof -
  let ?run = "tag_objects_by_pattern w path b op ofn tag_key tag_value max_workers batch_size max_list_workers"
  obtain w1 where rg: "read_groups w path op ofn = (Inr (n, groups), w1)"
    using assms(1) by (cases "read_groups w path op ofn") auto
  obtain w2 where fa: "find_all w1 b groups [] = ([], w2)"
    using assms(3) rg by (cases "find_all w1 b groups []") auto
  have run: "?run = (NoMatches, emit WARNING NoMatchingObjects (emit INFO (Phase1Complete 0) w2))"
    unfolding tag_objects_by_pattern_def rg using assms(2)
    by (simp add: fa Let_def)
  note fr = find_all_frame[OF fa]
  note rf = read_groups_frame[OF rg]
  let ?new = "[(INFO, ReadingCsv path), (INFO, ProcessingRows n),
           (INFO, FoundUniqueLocations (length groups)), (INFO, Phase1Start)]
           @ concat (map (group_log w1 b) groups)"
  have lg: "logged (snd ?run) = logged w @ ?new @ [(INFO, Phase1Complete 0), (WARNING, NoMatchingObjects)]"
    by (simp add: run fr(7) read_groups_logged[OF rg])
  have ns: "\<forall>e \<in> set (?new @ [(INFO, Phase1Complete 0), (WARNING, NoMatchingObjects)]).
                \<forall>n' l ms c. snd e \<notin> set (summary n' l ms c)"
  proof
    fix e assume e: "e \<in> set (?new @ [(INFO, Phase1Complete 0), (WARNING, NoMatchingObjects)])"
    show "\<forall>n' l ms c. snd e \<notin> set (summary n' l ms c)"
    proof (cases "e \<in> set (concat (map (group_log w1 b) groups))")
      case True
      then obtain g where "e \<in> set (group_log w1 b g)" by auto
      then show ?thesis using group_log_not_summary by blast
    next
      case False
      then have "snd e \<in> {ReadingCsv path, ProcessingRows n, FoundUniqueLocations (length groups),
          Phase1Start, Phase1Complete 0, NoMatchingObjects}"
        using e by auto
      then show ?thesis by (auto simp: summary_def)
    qed
  qed
  show ?thesis
    using lg ns
    by (simp add: run fr(1,6) rf(2,6) group_prefix_def)
qed

theorem empty_discovery_returns_before_tagging_witness:
  "fst (read_groups (example_world\<lparr>listing := (\<lambda>_. ([], None))\<rparr>)
          ''delete_data/Videos-Test.csv'' ''location_folder'' ''location_file'') =
      Inr (1, [(''ShowA/S01'', [''ep01''])])
   \<and> fst (find_all (snd (read_groups (example_world\<lparr>listing := (\<lambda>_. ([], None))\<rparr>)
          ''delete_data/Videos-Test.csv'' ''location_folder'' ''location_file''))
          ''svodvideos'' [(''ShowA/S01'', [''ep01''])] []) = []
   \<and> fst (tag_objects_by_pattern (example_world\<lparr>listing := (\<lambda>_. ([], None))\<rparr>)
          ''delete_data/Videos-Test.csv'' ''svodvideos'' ''location_folder'' ''location_file''
          ''PERMANENT_DELETE'' ''CONFIRMED'' 50 100 10) = NoMatches
   \<and> calls (snd (tag_objects_by_pattern (example_world\<lparr>listing := (\<lambda>_. ([], None))\<rparr>)
          ''delete_data/Videos-Test.csv'' ''svodvideos'' ''location_folder'' ''location_file''
          ''PERMANENT_DELETE'' ''CONFIRMED'' 50 100 10)) =
        [ListObjectsV2 ''svodvideos'' ''TvShows/ShowA/S01/'']"
proof -
  let ?w = "example_world\<lparr>listing := (\<lambda>_. ([], None))\<rparr>"
  have h1: "fst (read_groups ?w ''delete_data/Videos-Test.csv'' ''location_folder'' ''location_file'') =
      Inr (1, [(''ShowA/S01'', [''ep01''])])"
    by code_simp
  have h2: "fst (find_all (snd (read_groups ?w
          ''delete_data/Videos-Test.csv'' ''location_folder'' ''location_file''))
          ''svodvideos'' [(''ShowA/S01'', [''ep01''])] []) = []"
    by code_simp
  have h3: "calls ?w = []" by (simp add: example_world_def quiet_world_def)
  from empty_discovery_returns_before_tagging[OF h1 _ h2, of 10 "''PERMANENT_DELETE''" "''CONFIRMED''" 50 100]
  show ?thesis using h1 h2 h3 by simp
qed

section \<open>A listing that fails\<close>





section \<open>Grouping the rows\<close>

lemma fst_append_to_group:
  "map fst (append_to_group l f gs) = (if l \<in> set (map fst gs) then map fst gs else map fst gs @ [l])"
proof (induction gs)
  case Nil
  show ?case by simp
next
  case (Cons g gs)
  obtain a b where g: "g = (a, b)" by (cases g)
  show ?case using Cons.IH by (simp add: g)
qed

lemma distinct_append_to_group:
  "distinct (map fst gs) \<Longrightarrow> distinct (map fst (append_to_group l f gs))"
  by (simp add: fst_append_to_group)

lemma keys_append_to_group:
  "set (map fst (append_to_group l f gs)) = insert l (set (map fst gs))"
  unfolding fst_append_to_group by auto

lemma entries_append_to_group:
  "mset (entries (append_to_group l f gs)) = mset (entries gs) + {#(l, f)#}"
proof (induction gs)
  case Nil
  show ?case by (simp add: entries_def)
next
  case (Cons g gs)
  obtain a b where g: "g = (a, b)" by (cases g)
  have e: "entries ((x, ys) # hs) = map (Pair x) ys @ entries hs" for x ys hs
    by (simp add: entries_def)
  show ?case using Cons.IH by (simp add: g e)
qed

lemma grouped_Cons:
  "grouped op ofn gs (r # rs) =
     grouped op ofn (append_to_group (row_location op r) (row_filename ofn r) gs) rs"
  by (simp add: grouped_def)

lemma grouped_distinct:
  "distinct (map fst gs) \<Longrightarrow> distinct (map fst (grouped op ofn gs rs))"
proof (induction rs arbitrary: gs)
  case Nil
  then show ?case by (simp add: grouped_def)
next
  case (Cons r rs)
  show ?case
    unfolding grouped_Cons by (rule Cons.IH) (rule distinct_append_to_group[OF Cons.prems])
qed

lemma grouped_keys:
  "set (map fst (grouped op ofn gs rs)) = set (map fst gs) \<union> row_location op ` set rs"
proof (induction rs arbitrary: gs)
  case Nil
  show ?case by (simp add: grouped_def)
next
  case (Cons r rs)
  show ?case
    unfolding grouped_Cons Cons.IH keys_append_to_group by auto
qed

lemma grouped_entries:
  "mset (entries (grouped op ofn gs rs)) =
     mset (entries gs) + mset (map (\<lambda>row. (row_location op row, row_filename ofn row)) rs)"
proof (induction rs arbitrary: gs)
  case Nil
  show ?case by (simp add: grouped_def)
next
  case (Cons r rs)
  show ?case
    unfolding grouped_Cons Cons.IH entries_append_to_group by simp
qed

lemma location_groups_grouped: "location_groups op ofn rs = grouped op ofn [] rs"
  by (simp add: location_groups_def grouped_def)

lemma location_groups_distinct: "distinct (map fst (location_groups op ofn rs))"
  unfolding location_groups_grouped by (rule grouped_distinct) simp

lemma location_groups_keys:
  "set (map fst (location_groups op ofn rs)) = row_location op ` set rs"
  unfolding location_groups_grouped grouped_keys by simp

lemma location_groups_entries:
  "mset (entries (location_groups op ofn rs)) =
     mset (map (\<lambda>row. (row_location op row, row_filename ofn row)) rs)"
  unfolding location_groups_grouped grouped_entries by (simp add: entries_def)

lemma count_list_distinct:
  "distinct xs \<Longrightarrow> count_list xs x = (if x \<in> set xs then 1 else 0)"
  by (induction xs) auto

lemma listing_calls_distinct:
  assumes "distinct (map fst gs)"
  shows "distinct (map (\<lambda>g. ListObjectsV2 b (''TvShows/'' @ fst g @ ''/'')) gs)"
proof -
  have "inj (\<lambda>l. ListObjectsV2 b (''TvShows/'' @ l @ ''/''))" by (rule injI) simp
  then have "distinct (map (\<lambda>l. ListObjectsV2 b (''TvShows/'' @ l @ ''/'')) (map fst gs))"
    using assms by (simp add: distinct_map inj_on_def)
  then show ?thesis by (simp add: comp_def)
qed

text \<open>
  C3. The groups have pairwise different locations, one for each stripped prefix that
  occurs in the rows, and discovery issues one listing call for each group, in order:
  for the prefix of any row, exactly one call lists it, however many rows or filenames
  share it. The three rows of the scenario give the two groups
  \<open>ShowA/S01\<close> with \<open>ep01, ep02\<close> and \<open>ShowB/S01\<close> with \<open>ep01\<close>, and two listing calls.
\<close>

theorem one_listing_per_location:
  "distinct (map fst (location_groups op ofn rs))
   \<and> set (map fst (location_groups op ofn rs)) = row_location op ` set rs
   \<and> calls (snd (find_all w b (location_groups op ofn rs) [])) =
        calls w @ map (\<lambda>g. ListObjectsV2 b (''TvShows/'' @ fst g @ ''/'')) (location_groups op ofn rs)
   \<and> (\<forall>row \<in> set rs.
         count_list (map (\<lambda>g. ListObjectsV2 b (''TvShows/'' @ fst g @ ''/'')) (location_groups op ofn rs))
           (ListObjectsV2 b (''TvShows/'' @ row_location op row @ ''/'')) = 1)
   \<and> location_groups ''location_folder'' ''location_file''
         [[''location_folder'' \<mapsto> ''ShowA/S01'', ''location_file'' \<mapsto> ''ep01''],
          [''location_folder'' \<mapsto> ''ShowA/S01'', ''location_file'' \<mapsto> ''ep02''],
          [''location_folder'' \<mapsto> ''ShowB/S01'', ''location_file'' \<mapsto> ''ep01'']] =
       [(''ShowA/S01'', [''ep01'', ''ep02'']), (''ShowB/S01'', [''ep01''])]
   \<and> calls (snd (find_all w b [(''ShowA/S01'', [''ep01'', ''ep02'']), (''ShowB/S01'', [''ep01''])] [])) =
        calls w @ [ListObjectsV2 b ''TvShows/ShowA/S01/'', ListObjectsV2 b ''TvShows/ShowB/S01/'']"
proof (intro conjI ballI)
  show "distinct (map fst (location_groups op ofn rs))" by (rule location_groups_distinct)
  show "set (map fst (location_groups op ofn rs)) = row_location op ` set rs"
    by (rule location_groups_keys)
  show "calls (snd (find_all w b (location_groups op ofn rs) [])) =
        calls w @ map (\<lambda>g. ListObjectsV2 b (''TvShows/'' @ fst g @ ''/'')) (location_groups op ofn rs)"
    by (simp add: find_all_eq group_prefix_def)
  show "calls (snd (find_all w b [(''ShowA/S01'', [''ep01'', ''ep02'']), (''ShowB/S01'', [''ep01''])] [])) =
        calls w @ [ListObjectsV2 b ''TvShows/ShowA/S01/'', ListObjectsV2 b ''TvShows/ShowB/S01/'']"
    by (simp add: find_all_eq group_prefix_def)
  show "location_groups ''location_folder'' ''location_file''
         [[''location_folder'' \<mapsto> ''ShowA/S01'', ''location_file'' \<mapsto> ''ep01''],
          [''location_folder'' \<mapsto> ''ShowA/S01'', ''location_file'' \<mapsto> ''ep02''],
          [''location_folder'' \<mapsto> ''ShowB/S01'', ''location_file'' \<mapsto> ''ep01'']] =
       [(''ShowA/S01'', [''ep01'', ''ep02'']), (''ShowB/S01'', [''ep01''])]"
    by (simp add: location_groups_def row_location_def row_filename_def str_cell_def strip_slashes_def)
next
  fix row assume "row \<in> set rs"
  then have "row_location op row \<in> set (map fst (location_groups op ofn rs))"
    unfolding location_groups_keys by simp
  then have "ListObjectsV2 b (''TvShows/'' @ row_location op row @ ''/'') \<in>
      set (map (\<lambda>g. ListObjectsV2 b (''TvShows/'' @ fst g @ ''/'')) (location_groups op ofn rs))"
    by auto
  then show "count_list (map (\<lambda>g. ListObjectsV2 b (''TvShows/'' @ fst g @ ''/'')) (location_groups op ofn rs))
           (ListObjectsV2 b (''TvShows/'' @ row_location op row @ ''/'')) = 1"
    using count_list_distinct[OF listing_calls_distinct[OF location_groups_distinct]] by simp
qed

theorem one_listing_per_location_witness:
  "(let rs = [[''location_folder'' \<mapsto> ''ShowA/S01'', ''location_file'' \<mapsto> ''ep01''],
              [''location_folder'' \<mapsto> ''ShowA/S01/'', ''location_file'' \<mapsto> ''ep02''],
              [''location_folder'' \<mapsto> ''ShowB/S01'', ''location_file'' \<mapsto> ''ep01'']];
        groups = location_groups ''location_folder'' ''location_file'' rs
    in groups = [(''ShowA/S01'', [''ep01'', ''ep02'']), (''ShowB/S01'', [''ep01''])]
       \<and> rs ! 1 \<in> set rs
       \<and> row_location ''location_folder'' (rs ! 1) = ''ShowA/S01''
       \<and> count_list (map (\<lambda>g. ListObjectsV2 ''svodvideos'' (''TvShows/'' @ fst g @ ''/'')) groups)
            (ListObjectsV2 ''svodvideos'' ''TvShows/ShowA/S01/'') = 1
       \<and> calls (snd (find_all quiet_world ''svodvideos'' groups [])) =
            [ListObjectsV2 ''svodvideos'' ''TvShows/ShowA/S01/'',
             ListObjectsV2 ''svodvideos'' ''TvShows/ShowB/S01/''])"
  using one_listing_per_location[of "''location_folder''" "''location_file''"
      "[[''location_folder'' \<mapsto> ''ShowA/S01'', ''location_file'' \<mapsto> ''ep01''],
        [''location_folder'' \<mapsto> ''ShowA/S01/'', ''location_file'' \<mapsto> ''ep02''],
        [''location_folder'' \<mapsto> ''ShowB/S01'', ''location_file'' \<mapsto> ''ep01'']]"
      quiet_world "''svodvideos''"]
  by (simp add: location_groups_def row_location_def row_filename_def str_cell_def
      strip_slashes_def quiet_world_def Let_def del: find_all.simps)

lemma dropna_skip:
  "row op = None \<or> row ofn = None \<Longrightarrow> dropna op ofn (xs @ row # ys) = dropna op ofn (xs @ ys)"
  by (auto simp: dropna_def)

text \<open>
  C6. A row with a missing value in either column is not among the rows that are
  grouped, and putting such a row anywhere into the table leaves the groups as they
  are. The (location, filename) entries of the groups are, as a multiset, exactly the
  pairs of the rows with both values, one entry for each such row, and no two groups
  have the same location. Reading such a table is not an error exit: with both columns
  present \<open>read_groups\<close> returns the groups.
\<close>

theorem incomplete_rows_are_dropped:
  "(\<forall>row \<in> set rs. row op = None \<or> row ofn = None \<longrightarrow> row \<notin> set (dropna op ofn rs))
   \<and> (\<forall>row \<in> set rs. row op \<noteq> None \<and> row ofn \<noteq> None \<longrightarrow> row \<in> set (dropna op ofn rs))
   \<and> (\<forall>row xs ys. row op = None \<or> row ofn = None \<longrightarrow>
         location_groups op ofn (dropna op ofn (xs @ row # ys)) =
         location_groups op ofn (dropna op ofn (xs @ ys)))
   \<and> mset (concat (map (\<lambda>g. map (Pair (fst g)) (snd g)) (location_groups op ofn (dropna op ofn rs)))) =
        mset (map (\<lambda>row. (row_location op row, row_filename ofn row)) (dropna op ofn rs))
   \<and> distinct (map fst (location_groups op ofn (dropna op ofn rs)))
   \<and> (files w path = Inr df \<and> op \<in> set (columns df) \<and> ofn \<in> set (columns df) \<longrightarrow>
        fst (read_groups w path op ofn) =
          Inr (length (dropna op ofn (rows df)), location_groups op ofn (dropna op ofn (rows df))))"
proof (intro conjI)
  show "\<forall>row \<in> set rs. row op = None \<or> row ofn = None \<longrightarrow> row \<notin> set (dropna op ofn rs)"
    by (auto simp: dropna_def)
  show "\<forall>row \<in> set rs. row op \<noteq> None \<and> row ofn \<noteq> None \<longrightarrow> row \<in> set (dropna op ofn rs)"
    by (auto simp: dropna_def)
  show "\<forall>row xs ys. row op = None \<or> row ofn = None \<longrightarrow>
         location_groups op ofn (dropna op ofn (xs @ row # ys)) =
         location_groups op ofn (dropna op ofn (xs @ ys))"
    using dropna_skip by metis
  show "mset (concat (map (\<lambda>g. map (Pair (fst g)) (snd g)) (location_groups op ofn (dropna op ofn rs)))) =
        mset (map (\<lambda>row. (row_location op row, row_filename ofn row)) (dropna op ofn rs))"
    using location_groups_entries[of op ofn "dropna op ofn rs"] by (simp add: entries_def)
  show "distinct (map fst (location_groups op ofn (dropna op ofn rs)))"
    by (rule location_groups_distinct)
  show "files w path = Inr df \<and> op \<in> set (columns df) \<and> ofn \<in> set (columns df) \<longrightarrow>
        fst (read_groups w path op ofn) =
          Inr (length (dropna op ofn (rows df)), location_groups op ofn (dropna op ofn (rows df)))"
    by (simp add: read_groups_def Let_def)
qed

theorem incomplete_rows_are_dropped_witness:
  "(let r1 = [''location_folder'' \<mapsto> ''ShowA/S01'', ''location_file'' \<mapsto> ''ep01''];
        r2 = [''location_folder'' \<mapsto> ''ShowA/S01''];
        r3 = [''location_folder'' \<mapsto> ''ShowB/S01'', ''location_file'' \<mapsto> ''ep03'']
    in r2 ''location_file'' = None
       \<and> location_groups ''location_folder'' ''location_file''
             (dropna ''location_folder'' ''location_file'' ([r1] @ r2 # [r3])) =
           location_groups ''location_folder'' ''location_file''
             (dropna ''location_folder'' ''location_file'' ([r1] @ [r3]))
       \<and> location_groups ''location_folder'' ''location_file''
             (dropna ''location_folder'' ''location_file'' ([r1] @ r2 # [r3])) =
           [(''ShowA/S01'', [''ep01'']), (''ShowB/S01'', [''ep03''])])
   \<and> files example_world ''delete_data/Videos-Test.csv'' = Inr example_frame
   \<and> fst (read_groups example_world ''delete_data/Videos-Test.csv'' ''location_folder'' ''location_file'') =
        Inr (1, [(''ShowA/S01'', [''ep01''])])"
  using incomplete_rows_are_dropped[of
      "[[''location_folder'' \<mapsto> ''ShowA/S01'', ''location_file'' \<mapsto> ''ep01''],
        [''location_folder'' \<mapsto> ''ShowA/S01''],
        [''location_folder'' \<mapsto> ''ShowB/S01'', ''location_file'' \<mapsto> ''ep03'']]"
      "''location_folder''" "''location_file''" example_world "''delete_data/Videos-Test.csv''"
      example_frame]
  by (simp add: location_groups_def row_location_def row_filename_def str_cell_def
      strip_slashes_def dropna_def example_world_def example_frame_def quiet_world_def
      read_groups_def Let_def)


section \<open>What the pattern of a group matches\<close>

text \<open>
  C4, as the claim states it, fails. For the group \<open>ShowA/S01\<close> with the filename \<open>ep01\<close>:
  a key with a newline between the filename and the extension has the form the claim
  describes and is not matched, since \<^verbatim>\<open>.\<close> does not match a newline; a key that ends
  with a newline after \<^verbatim>\<open>.mp4\<close> is matched, since \<^verbatim>\<open>$\<close> also matches before a final
  newline; and the key \<^verbatim>\<open>ShowA/S01/ep01_1080p.mp4\<close>, written as in the claim without the
  \<^verbatim>\<open>TvShows/\<close> namespace, is not matched.
\<close>

theorem newline_key_counterexample:
  "re_compile (full_pattern ''TvShows/ShowA/S01/'' [''ep01'']) =
      Some (pattern_regex ''TvShows/ShowA/S01/'' [''ep01''])
   \<and> \<not> re_match (pattern_regex ''TvShows/ShowA/S01/'' [''ep01''])
          (''TvShows/ShowA/S01/'' @ ''ep01'' @ [newline] @ ''.mp4'')
   \<and> re_match (pattern_regex ''TvShows/ShowA/S01/'' [''ep01''])
          (''TvShows/ShowA/S01/'' @ ''ep01'' @ ''_720p'' @ ''.mp4'' @ [newline])
   \<and> \<not> re_match (pattern_regex ''TvShows/ShowA/S01/'' [''ep01'']) ''ShowA/S01/ep01_1080p.mp4''"
  by code_simp

lemma list_matching_objects_ok:
  assumes "re_compile pattern = Some r" and "snd (listing w (b, prefix)) = None"
  shows "fst (list_matching_objects w b prefix pattern) =
     Inr (concat (map (page_matches r) (fst (listing w (b, prefix)))))"
  using assms
  by (cases "listing w (b, prefix)") (simp add: list_matching_objects_def paginate_def Let_def)

text \<open>
  C4, amended. For a group with at least one filename the pattern compiles, and it
  matches a key if and only if the key is \<^verbatim>\<open>TvShows/\<close>, the location and \<^verbatim>\<open>/\<close>, then one
  of the group's filenames taken literally, then any characters other than a newline,
  then \<^verbatim>\<open>.mp4\<close>, then nothing or one final newline. When the listing of the prefix
  raises nothing, \<open>list_matching_objects\<close> returns exactly the listed keys that the
  pattern matches. In particular the keys \<^verbatim>\<open>TvShows/ShowA/S01/ep01_1080p.mp4\<close> and
  \<^verbatim>\<open>TvShows/ShowA/S01/ep01_720p.mp4\<close> match the filename \<open>ep01\<close> of \<open>ShowA/S01\<close>.
\<close>

theorem pattern_matches_exactly:
  "(filenames \<noteq> [] \<longrightarrow>
     (\<exists>r. re_compile (full_pattern (''TvShows/'' @ location @ ''/'') filenames) = Some r
        \<and> (\<forall>key. re_match r key \<longleftrightarrow>
              (\<exists>fn \<in> set filenames. \<exists>mid tail.
                  key = (''TvShows/'' @ location @ ''/'') @ fn @ mid @ ''.mp4'' @ tail
                  \<and> newline \<notin> set mid \<and> (tail = [] \<or> tail = [newline])))
        \<and> (\<forall>w b. snd (listing w (b, ''TvShows/'' @ location @ ''/'')) = None \<longrightarrow>
              fst (list_matching_objects w b (''TvShows/'' @ location @ ''/'')
                     (full_pattern (''TvShows/'' @ location @ ''/'') filenames)) =
                Inr (concat (map (page_matches r)
                       (fst (listing w (b, ''TvShows/'' @ location @ ''/''))))))))
   \<and> (\<exists>r. re_compile (full_pattern ''TvShows/ShowA/S01/'' [''ep01'']) = Some r
        \<and> re_match r ''TvShows/ShowA/S01/ep01_1080p.mp4''
        \<and> re_match r ''TvShows/ShowA/S01/ep01_720p.mp4'')"
proof (intro conjI impI)
  assume ne: "filenames \<noteq> []"
  let ?p = "''TvShows/'' @ location @ ''/''"
  let ?r = "pattern_regex ?p filenames"
  have c: "re_compile (full_pattern ?p filenames) = Some ?r"
    by (rule re_compile_full_pattern[OF ne])
  have m: "\<forall>key. re_match ?r key \<longleftrightarrow>
              (\<exists>fn \<in> set filenames. \<exists>mid tail.
                  key = ?p @ fn @ mid @ ''.mp4'' @ tail
                  \<and> newline \<notin> set mid \<and> (tail = [] \<or> tail = [newline]))"
    using pattern_regex_match[OF ne, of ?p] by blast
  have l: "\<forall>w b. snd (listing w (b, ?p)) = None \<longrightarrow>
              fst (list_matching_objects w b ?p (full_pattern ?p filenames)) =
                Inr (concat (map (page_matches ?r) (fst (listing w (b, ?p)))))"
    using list_matching_objects_ok[OF c] by blast
  show "\<exists>r. re_compile (full_pattern ?p filenames) = Some r
        \<and> (\<forall>key. re_match r key \<longleftrightarrow>
              (\<exists>fn \<in> set filenames. \<exists>mid tail.
                  key = ?p @ fn @ mid @ ''.mp4'' @ tail
                  \<and> newline \<notin> set mid \<and> (tail = [] \<or> tail = [newline])))
        \<and> (\<forall>w b. snd (listing w (b, ?p)) = None \<longrightarrow>
              fst (list_matching_objects w b ?p (full_pattern ?p filenames)) =
                Inr (concat (map (page_matches r) (fst (listing w (b, ?p))))))"
    using c m l by blast
next
  let ?r = "pattern_regex ''TvShows/ShowA/S01/'' [''ep01'']"
  have c: "re_compile (full_pattern ''TvShows/ShowA/S01/'' [''ep01'']) = Some ?r"
    by (rule re_compile_full_pattern) simp
  have m1: "re_match ?r ''TvShows/ShowA/S01/ep01_1080p.mp4''" by code_simp
  have m2: "re_match ?r ''TvShows/ShowA/S01/ep01_720p.mp4''" by code_simp
  show "\<exists>r. re_compile (full_pattern ''TvShows/ShowA/S01/'' [''ep01'']) = Some r
        \<and> re_match r ''TvShows/ShowA/S01/ep01_1080p.mp4''
        \<and> re_match r ''TvShows/ShowA/S01/ep01_720p.mp4''"
    using c m1 m2 by blast
qed

theorem pattern_matches_exactly_witness:
  "[''ep(1).x''] \<noteq> []
   \<and> (\<exists>r. re_compile (full_pattern (''TvShows/'' @ ''ShowA/S01'' @ ''/'') [''ep(1).x'']) = Some r
        \<and> re_match r (''TvShows/ShowA/S01/'' @ ''ep(1).x'' @ ''_720p'' @ ''.mp4'' @ []))"
proof -
  from pattern_matches_exactly[of "[''ep(1).x'']" "''ShowA/S01''"]
  obtain r where r: "re_compile (full_pattern (''TvShows/'' @ ''ShowA/S01'' @ ''/'') [''ep(1).x'']) = Some r"
    and m: "\<forall>key. re_match r key \<longleftrightarrow>
              (\<exists>fn \<in> set [''ep(1).x'']. \<exists>mid tail.
                  key = (''TvShows/'' @ ''ShowA/S01'' @ ''/'') @ fn @ mid @ ''.mp4'' @ tail
                  \<and> newline \<notin> set mid \<and> (tail = [] \<or> tail = [newline]))"
    by blast
  have "\<exists>fn \<in> set [''ep(1).x'']. \<exists>mid tail.
      ''TvShows/ShowA/S01/'' @ ''ep(1).x'' @ ''_720p'' @ ''.mp4'' @ [] =
        (''TvShows/'' @ ''ShowA/S01'' @ ''/'') @ fn @ mid @ ''.mp4'' @ tail
      \<and> newline \<notin> set mid \<and> (tail = [] \<or> tail = [newline])"
    by (intro bexI[of _ "''ep(1).x''"] exI[of _ "''_720p''"] exI[of _ "[]"])
       (simp_all add: newline_def)
  then have "re_match r (''TvShows/ShowA/S01/'' @ ''ep(1).x'' @ ''_720p'' @ ''.mp4'' @ [])"
    using m by blast
  then show ?thesis using r by blast
qed

section \<open>Which errors end the run\<close>









end
